theory Spec2Isabelle
  imports Complex_Main
begin

section \<open>Conventions of the embedding\<close>

text \<open>
  The program is \<^verbatim>\<open>src/diffusion.py\<close>: a score-based diffusion model written with JAX.

  \<^item> Floating-point scalars are \<^typ>\<open>real\<close> numbers. The functions of the source are
    translated with exact arithmetic, which is what the claims about the formulas they
    evaluate are about. Where the rounding of a result decides a claim (the bounds on the
    times of a batch), the function is translated a second time with the rounding of every
    result written out, under the same name with the suffix \<open>_fl\<close>. Infinities and NaN are
    outside the model.
  \<^item> An array of floats is the list of its elements (a flattened tensor); the shape of an
    array is a list of integers and is modelled separately where a claim is about shapes.
  \<^item> Python integers are \<^typ>\<open>int\<close>; \<open>//\<close> and \<open>%\<close> round towards minus infinity as
    \<open>div\<close> and \<open>mod\<close> do, and raise on a zero divisor, which the model writes out.
  \<^item> Python exceptions are values of \<open>error\<close>; a function that can raise returns
    \<open>error + 'a\<close>.
  \<^item> The pseudo-random number generator of the JAX library is not part of the repository.
    It is a parameter \<open>g\<close> of every function that draws: a record of the three library
    functions the source calls.
\<close>

text \<open>\<open>LibraryError\<close> stands for the exception a library function raises on an argument it
  rejects, whatever its Python class.\<close>

datatype error = AssertionError | ZeroDivisionError | ValueError | IndexError | LibraryError

type_synonym tensor = "real list"

record 'k prng =
  split :: "'k \<Rightarrow> nat \<Rightarrow> 'k list"
  uniform :: "'k \<Rightarrow> nat \<Rightarrow> real \<Rightarrow> real \<Rightarrow> real list"
  normal :: "'k \<Rightarrow> nat \<Rightarrow> real list"

text \<open>
  What the library documents of these functions: \<open>split k n\<close> returns \<open>n\<close> keys,
  \<open>uniform k n lo hi\<close> returns \<open>n\<close> numbers of the half-open interval from \<open>lo\<close> to \<open>hi\<close>,
  and \<open>normal k n\<close> returns \<open>n\<close> numbers.
\<close>

definition prng_ok :: "'k prng \<Rightarrow> bool" where
  "prng_ok g \<longleftrightarrow>
     (\<forall>k n. length (split g k n) = n) \<and>
     (\<forall>k n lo hi. length (uniform g k n lo hi) = n) \<and>
     (\<forall>k n lo hi. lo < hi \<longrightarrow> list_all (\<lambda>u. lo \<le> u \<and> u < hi) (uniform g k n lo hi)) \<and>
     (\<forall>k n. length (normal g k n) = n)"

subsection \<open>Two concrete generators\<close>

text \<open>
  Keys are derivation paths. The \<open>i\<close>-th key of a split depends on the parent key and on
  \<open>i\<close> only, as in a counter-based generator. \<open>frac_prng c\<close> draws every number at the
  fraction \<open>c\<close> of its interval; \<open>grid_prng\<close> draws the \<open>i\<close>-th of \<open>n\<close> numbers at the
  fraction \<open>i / n\<close> of the interval.
\<close>

definition path_split :: "nat list \<Rightarrow> nat \<Rightarrow> nat list list" where
  "path_split k n = map (\<lambda>i. k @ [i]) [0..<n]"

definition frac_prng :: "real \<Rightarrow> (nat list) prng" where
  "frac_prng c = \<lparr> split = path_split,
                   uniform = (\<lambda>k n lo hi. replicate n (lo + c * (hi - lo))),
                   normal = (\<lambda>k n. replicate n 0) \<rparr>"

definition grid_prng :: "(nat list) prng" where
  "grid_prng = \<lparr> split = path_split,
                 uniform = (\<lambda>k n lo hi. map (\<lambda>i. lo + (hi - lo) * (real i / real n)) [0..<n]),
                 normal = (\<lambda>k n. replicate n 1) \<rparr>"

section \<open>Rounding\<close>

text \<open>
  A rounding is a function from the exact result of an operation to the number that is
  stored. \<open>rounding_ok\<close> holds what the bounds below need of it: it is monotone, it leaves
  a stored number as it is, and it stores zero exactly.
\<close>

definition rounding_ok :: "(real \<Rightarrow> real) \<Rightarrow> bool" where
  "rounding_ok fl \<longleftrightarrow>
     (\<forall>x y. x \<le> y \<longrightarrow> fl x \<le> fl y) \<and> (\<forall>x. fl (fl x) = fl x) \<and> fl 0 = 0"

text \<open>
  The IEEE 754 binary formats, rounded to nearest with ties to even: \<open>round_to q emin\<close> is
  the format with \<open>q\<close> fraction bits and the least exponent \<open>emin\<close>. \<open>expo emin x\<close> is the
  exponent of the binade of \<open>x > 0\<close>, not below \<open>emin\<close> (the subnormal numbers have the
  exponent \<open>emin\<close>), and \<open>ulp q emin x\<close> is the distance of two neighbours of the format
  there. Overflow to infinity is not modelled.
\<close>

definition round_even :: "real \<Rightarrow> int" where
  "round_even x =
     (let f = \<lfloor>x\<rfloor>; r = x - of_int f
      in if r < 1 / 2 then f else if 1 / 2 < r then f + 1 else if even f then f else f + 1)"

definition expo :: "int \<Rightarrow> real \<Rightarrow> int" where
  "expo emin x = max \<lfloor>log 2 x\<rfloor> emin"

definition ulp :: "nat \<Rightarrow> int \<Rightarrow> real \<Rightarrow> real" where
  "ulp q emin x = 2 powr (of_int (expo emin x) - of_nat q)"

definition round_mag :: "nat \<Rightarrow> int \<Rightarrow> real \<Rightarrow> real" where
  "round_mag q emin x =
     (if x = 0 then 0 else of_int (round_even (x / ulp q emin x)) * ulp q emin x)"

definition round_to :: "nat \<Rightarrow> int \<Rightarrow> real \<Rightarrow> real" where
  "round_to q emin x = (if x < 0 then - round_mag q emin (- x) else round_mag q emin x)"

text \<open>binary32, the type of the arrays of the source, and binary64, the type of a Python
  float.\<close>

definition fl32 :: "real \<Rightarrow> real" where
  "fl32 = round_to 23 (- 126)"

definition fl64 :: "real \<Rightarrow> real" where
  "fl64 = round_to 52 (- 1022)"

section \<open>Noise schedule\<close>

text \<open>Lines 159 and 160: \<^verbatim>\<open>int_beta = lambda t: t\<close> and
  \<^verbatim>\<open>weight = lambda t: 1 - jnp.exp(-int_beta(t))\<close>, in exact arithmetic. The stored value
  of the weight is rounded and is zero for very small positive times, where the real number
  is positive; what is proved of the weight below holds of both.\<close>

definition int_beta :: "real \<Rightarrow> real" where
  "int_beta t = t"

definition weight :: "real \<Rightarrow> real" where
  "weight t = 1 - exp (- int_beta t)"

section \<open>Training objective\<close>

text \<open>Line 78 of \<^verbatim>\<open>single_loss_fn\<close>: the variance with its floor, for any schedule.\<close>

definition variance :: "(real \<Rightarrow> real) \<Rightarrow> real \<Rightarrow> real" where
  "variance ib t = max (1 - exp (- ib t)) (1 / 100000)"

text \<open>\<^verbatim>\<open>jnp.mean\<close> of an array: the sum of its elements over their number.\<close>

definition jnp_mean :: "real list \<Rightarrow> real" where
  "jnp_mean xs = sum_list xs / real (length xs)"

text \<open>
  \<^verbatim>\<open>single_loss_fn(model, weight, int_beta, data, t, key)\<close>, lines 76 to 83. The network
  is the function \<open>model\<close>; the elementwise operations on arrays of one shape are maps over
  the elements.
\<close>

definition single_loss_fn ::
  "'k prng \<Rightarrow> (real \<Rightarrow> tensor \<Rightarrow> tensor) \<Rightarrow> (real \<Rightarrow> real) \<Rightarrow> (real \<Rightarrow> real) \<Rightarrow>
     tensor \<Rightarrow> real \<Rightarrow> 'k \<Rightarrow> real" where
  "single_loss_fn g model w ib data t key =
     (let mean = map (\<lambda>x. x * exp (- 0.5 * ib t)) data;
          var = variance ib t;
          std = sqrt var;
          noise = normal g key (length data);
          y = map2 (+) mean (map (\<lambda>n. std * n) noise);
          pred = model t y
      in w t * jnp_mean (map (\<lambda>z. z ^ 2) (map2 (+) pred (map (\<lambda>n. n / std) noise))))"

text \<open>Lines 88 and 89 of \<^verbatim>\<open>batch_loss_fn\<close>: the key for the times and the keys for the
  noise. The tuple assignment of line 88 raises unless the split has two keys.\<close>

definition batch_keys :: "'k prng \<Rightarrow> 'k \<Rightarrow> nat \<Rightarrow> error + ('k \<times> 'k list)" where
  "batch_keys g key batch_size =
     (case split g key 2 of
        [tkey, losskey] \<Rightarrow> Inr (tkey, split g losskey batch_size)
      | _ \<Rightarrow> Inl ValueError)"

text \<open>\<^verbatim>\<open>jnp.arange(n)\<close>.\<close>

definition arange :: "nat \<Rightarrow> real list" where
  "arange n = map real [0..<n]"

text \<open>Lines 90 and 91: the times of a batch, in exact arithmetic.
  \<^verbatim>\<open>t1 / batch_size\<close> divides a Python float by a Python integer and raises when the
  batch is empty.\<close>

definition batch_times :: "'k prng \<Rightarrow> 'k \<Rightarrow> real \<Rightarrow> nat \<Rightarrow> error + real list" where
  "batch_times g tkey t1 batch_size =
     (if batch_size = 0 then Inl ZeroDivisionError
      else
        let t = uniform g tkey batch_size 0 (t1 / real batch_size)
        in Inr (map2 (+) t (map (\<lambda>a. (t1 / real batch_size) * a) (arange batch_size))))"

text \<open>
  Lines 90 and 91 once more, with the rounding of every result written out. \<open>fd\<close> rounds
  a Python float and \<open>fl\<close> rounds an element of an array: the quotient
  \<^verbatim>\<open>t1 / batch_size\<close> is a Python float, it becomes an element of the arrays as the upper
  bound of the draw and as the factor of \<^verbatim>\<open>jnp.arange(batch_size)\<close>, whose integers become
  floats too, and the products and the sums are elements of arrays.
\<close>

definition batch_times_fl ::
  "(real \<Rightarrow> real) \<Rightarrow> (real \<Rightarrow> real) \<Rightarrow> 'k prng \<Rightarrow> 'k \<Rightarrow> real \<Rightarrow> nat \<Rightarrow> error + real list" where
  "batch_times_fl fd fl g tkey t1 batch_size =
     (if batch_size = 0 then Inl ZeroDivisionError
      else
        let d = fl (fd (t1 / real batch_size));
            t = uniform g tkey batch_size 0 d
        in Inr (map2 (\<lambda>u a. fl (u + fl (d * fl a))) t (arange batch_size)))"

text \<open>\<^verbatim>\<open>jax.vmap\<close> of a function of three arguments: the arguments are mapped along
  their leading axes, which must have one size.\<close>

definition vmap3 :: "('a \<Rightarrow> 'b \<Rightarrow> 'c \<Rightarrow> 'd) \<Rightarrow> 'a list \<Rightarrow> 'b list \<Rightarrow> 'c list \<Rightarrow> error + 'd list" where
  "vmap3 f xs ys zs =
     (if length xs = length ys \<and> length ys = length zs
      then Inr (map (\<lambda>(x, y, z). f x y z) (zip xs (zip ys zs)))
      else Inl ValueError)"

text \<open>\<^verbatim>\<open>batch_loss_fn(model, weight, int_beta, data, t1, key)\<close>, lines 86 to 94.\<close>

definition batch_loss_fn ::
  "'k prng \<Rightarrow> (real \<Rightarrow> tensor \<Rightarrow> tensor) \<Rightarrow> (real \<Rightarrow> real) \<Rightarrow> (real \<Rightarrow> real) \<Rightarrow>
     tensor list \<Rightarrow> real \<Rightarrow> 'k \<Rightarrow> error + real" where
  "batch_loss_fn g model w ib data t1 key =
     (let batch_size = length data in
      case batch_keys g key batch_size of
        Inl e \<Rightarrow> Inl e
      | Inr (tkey, losskey) \<Rightarrow>
          (case batch_times g tkey t1 batch_size of
             Inl e \<Rightarrow> Inl e
           | Inr t \<Rightarrow>
               (case vmap3 (single_loss_fn g model w ib) data t losskey of
                  Inl e \<Rightarrow> Inl e
                | Inr losses \<Rightarrow> Inr (jnp_mean losses))))"

section \<open>Optimisation step\<close>

text \<open>
  \<^verbatim>\<open>make_step\<close>, lines 112 to 118. The network \<open>model\<close> is a value of any type with its
  forward pass \<open>forward\<close>. Differentiation and the optimiser are library code and are
  parameters: \<open>grad f m\<close> is the gradient of the loss \<open>f\<close> at \<open>m\<close>, \<open>update\<close> is
  \<^verbatim>\<open>optim.update\<close> and \<open>apply_updates\<close> is \<^verbatim>\<open>eqx.apply_updates\<close>.
\<close>

definition make_step ::
  "'k prng \<Rightarrow> ('m \<Rightarrow> real \<Rightarrow> tensor \<Rightarrow> tensor) \<Rightarrow> (('m \<Rightarrow> error + real) \<Rightarrow> 'm \<Rightarrow> 'g) \<Rightarrow>
     ('g \<Rightarrow> 's \<Rightarrow> 'u \<times> 's) \<Rightarrow> ('m \<Rightarrow> 'u \<Rightarrow> 'm) \<Rightarrow>
     'm \<Rightarrow> (real \<Rightarrow> real) \<Rightarrow> (real \<Rightarrow> real) \<Rightarrow> tensor list \<Rightarrow> real \<Rightarrow> 'k \<Rightarrow> 's \<Rightarrow>
     error + (real \<times> 'm \<times> 'k \<times> 's)" where
  "make_step g forward grad update apply_updates model w ib data t1 key opt_state =
     (case batch_loss_fn g (forward model) w ib data t1 key of
        Inl e \<Rightarrow> Inl e
      | Inr loss \<Rightarrow>
          let grads = grad (\<lambda>m. batch_loss_fn g (forward m) w ib data t1 key) model;
              (updates, opt_state') = update grads opt_state;
              model' = apply_updates model updates
          in (case split g key 1 of
                [] \<Rightarrow> Inl IndexError
              | key' # _ \<Rightarrow> Inr (loss, model', key', opt_state')))"

section \<open>Reverse sampler\<close>

text \<open>
  \<^verbatim>\<open>single_sample_fn\<close>, lines 98 to 109. Forward-mode differentiation (\<^verbatim>\<open>jax.jvp\<close>) and the
  solver of differential equations (\<^verbatim>\<open>diffrax\<close>) are library code and are parameters: a
  record \<open>D\<close> of the two library functions the source calls. \<open>jvp D f t v\<close> is
  \<^verbatim>\<open>jax.jvp(f, (t,), (v,))\<close>, the pair of the value and the tangent. \<open>diffeqsolve D\<close> takes
  the arguments of \<^verbatim>\<open>dx.diffeqsolve\<close> in their order (the vector field of the term, the
  solver, the start time, the end time, the first step, the start state) and returns
  the saved states \<^verbatim>\<open>sol.ys\<close>, or raises.
\<close>

datatype solver = Euler | Heun | Midpoint | Ralston | Bosh3 | Tsit5 | Dopri5 | Dopri8

record ode_library =
  jvp :: "(real \<Rightarrow> real) \<Rightarrow> real \<Rightarrow> real \<Rightarrow> real \<times> real"
  diffeqsolve ::
    "(real \<Rightarrow> tensor \<Rightarrow> unit \<Rightarrow> tensor) \<Rightarrow> solver \<Rightarrow> real \<Rightarrow> real \<Rightarrow> real \<Rightarrow> tensor \<Rightarrow>
       error + tensor list"

text \<open>
  What the library documents of \<^verbatim>\<open>jax.jvp\<close>, for a function \<open>f\<close> with the derivative \<open>f'\<close>:
  the value is \<open>f t\<close> and the tangent is the derivative at \<open>t\<close> times the input tangent.
\<close>

definition jvp_ok :: "ode_library \<Rightarrow> (real \<Rightarrow> real) \<Rightarrow> (real \<Rightarrow> real) \<Rightarrow> bool" where
  "jvp_ok D f f' \<longleftrightarrow>
     (\<forall>t. (f has_real_derivative f' t) (at t)) \<and> (\<forall>t v. jvp D f t v = (f t, f' t * v))"

text \<open>The inner function \<^verbatim>\<open>drift(t, y, args)\<close>, lines 99 to 101, closed over the network
  and the schedule; \<^verbatim>\<open>jnp.ones_like(t)\<close> is \<open>1\<close> for the scalar \<open>t\<close>.\<close>

definition drift ::
  "ode_library \<Rightarrow> (real \<Rightarrow> tensor \<Rightarrow> tensor) \<Rightarrow> (real \<Rightarrow> real) \<Rightarrow> real \<Rightarrow> tensor \<Rightarrow> unit \<Rightarrow> tensor" where
  "drift D model ib t y args =
     (let (_, beta) = jvp D ib t 1
      in map (\<lambda>a. - 0.5 * beta * a) (map2 (+) y (model t y)))"

text \<open>\<^verbatim>\<open>single_sample_fn(model, int_beta, data_shape, dt0, t1, key)\<close>. The shape of the
  data is the number of its elements. Indexing \<^verbatim>\<open>sol.ys[0]\<close> raises when no state was
  saved.\<close>

definition single_sample_fn ::
  "ode_library \<Rightarrow> 'k prng \<Rightarrow> (real \<Rightarrow> tensor \<Rightarrow> tensor) \<Rightarrow> (real \<Rightarrow> real) \<Rightarrow> nat \<Rightarrow> real \<Rightarrow>
     real \<Rightarrow> 'k \<Rightarrow> error + tensor" where
  "single_sample_fn D g model ib data_shape dt0 t1 key =
     (let term = drift D model ib;
          solver = Tsit5;
          t0 = 0;
          y1 = normal g key data_shape
      in case diffeqsolve D term solver t1 t0 (- dt0) y1 of
           Inl e \<Rightarrow> Inl e
         | Inr ys \<Rightarrow> (case ys of [] \<Rightarrow> Inl IndexError | y # _ \<Rightarrow> Inr y))"

text \<open>
  A concrete library: the tangent of the identity function, and one step of the explicit
  Euler method from the start time to the end time.
\<close>

definition euler_library :: ode_library where
  "euler_library =
     \<lparr> jvp = (\<lambda>f t v. (f t, v)),
       diffeqsolve = (\<lambda>f s t0 t1 dt0 y0.
          Inr [map2 (+) y0 (map (\<lambda>a. (t1 - t0) * a) (f t0 y0 ()))]) \<rparr>"

section \<open>Score network\<close>

text \<open>
  Of the network the model keeps what fixes the shapes of its arrays: each layer is a record
  of the arguments its constructor receives, and the forward pass is a function from the
  shape of its input to the shape of its output. The values of the weights are not
  modelled.

  The layers themselves (\<^verbatim>\<open>eqx.nn.Conv2d\<close>, \<^verbatim>\<open>eqx.nn.ConvTranspose2d\<close>,
  \<^verbatim>\<open>eqx.nn.MLP\<close>, \<^verbatim>\<open>eqx.nn.LayerNorm\<close>), \<^verbatim>\<open>einops\<close> and \<^verbatim>\<open>jnp.concatenate\<close> are library
  code. Whether a constructor accepts its arguments or raises is therefore a parameter
  \<open>L\<close> of the construction: a record of one predicate for each constructor the source
  calls, on the arguments the source passes.
\<close>

type_synonym shape = "int list"

record 'k conv =
  in_channels :: int
  out_channels :: int
  kernel_size :: int
  stride :: int
  conv_key :: 'k

record 'k mlp =
  in_size :: int
  out_size :: int
  width_size :: int
  depth :: int
  mlp_key :: 'k

record 'k MixerBlock =
  patch_mixer :: "'k mlp"
  hidden_mixer :: "'k mlp"
  norm1 :: shape
  norm2 :: shape

record 'k Mixer2d =
  conv_in :: "'k conv"
  conv_out :: "'k conv"
  blocks :: "'k MixerBlock list"
  norm_shape :: shape
  mixer_t1 :: real

record layers =
  Conv2d_ok :: "int \<Rightarrow> int \<Rightarrow> int \<Rightarrow> int \<Rightarrow> bool"
  ConvTranspose2d_ok :: "int \<Rightarrow> int \<Rightarrow> int \<Rightarrow> int \<Rightarrow> bool"
  MLP_ok :: "int \<Rightarrow> int \<Rightarrow> int \<Rightarrow> int \<Rightarrow> bool"
  LayerNorm_ok :: "shape \<Rightarrow> bool"

text \<open>
  What is known of the constructors: each accepts sizes that are all positive
  (\<open>Conv2d_ok L i c k s\<close> for \<open>i\<close> input channels, \<open>c\<close> output channels, kernel size
  \<open>k\<close> and stride \<open>s\<close>; \<open>MLP_ok L i c w d\<close> for input size, output size, width and
  depth). Nothing is assumed of a size that is zero or negative.
\<close>

definition layers_ok :: "layers \<Rightarrow> bool" where
  "layers_ok L \<longleftrightarrow>
     (\<forall>i c k s. 0 < i \<and> 0 < c \<and> 0 < k \<and> 0 < s \<longrightarrow> Conv2d_ok L i c k s) \<and>
     (\<forall>i c k s. 0 < i \<and> 0 < c \<and> 0 < k \<and> 0 < s \<longrightarrow> ConvTranspose2d_ok L i c k s) \<and>
     (\<forall>i c w d. 0 < i \<and> 0 < c \<and> 0 < w \<and> 0 < d \<longrightarrow> MLP_ok L i c w d) \<and>
     (\<forall>s. list_all (\<lambda>d. 0 < d) s \<longrightarrow> LayerNorm_ok L s)"

text \<open>A concrete library: a constructor accepts its sizes when all are positive, and
  raises otherwise.\<close>

definition positive_layers :: layers where
  "positive_layers =
     \<lparr> Conv2d_ok = (\<lambda>i c k s. 0 < i \<and> 0 < c \<and> 0 < k \<and> 0 < s),
       ConvTranspose2d_ok = (\<lambda>i c k s. 0 < i \<and> 0 < c \<and> 0 < k \<and> 0 < s),
       MLP_ok = (\<lambda>i c w d. 0 < i \<and> 0 < c \<and> 0 < w \<and> 0 < d),
       LayerNorm_ok = list_all (\<lambda>d. 0 < d) \<rparr>"

text \<open>An exception ends the computation: the sequencing of two steps that can raise.\<close>

definition and_then :: "error + 'a \<Rightarrow> ('a \<Rightarrow> error + 'b) \<Rightarrow> error + 'b" where
  "and_then r f = (case r of Inl e \<Rightarrow> Inl e | Inr x \<Rightarrow> f x)"

subsection \<open>Construction\<close>

text \<open>\<^verbatim>\<open>MixerBlock.__init__\<close>, lines 20 to 28: the two networks and the two normalisation
  layers are built in the order of the source, and the first constructor that raises ends
  the construction.\<close>

definition MixerBlock_init ::
  "layers \<Rightarrow> 'k prng \<Rightarrow> int \<Rightarrow> int \<Rightarrow> int \<Rightarrow> int \<Rightarrow> 'k \<Rightarrow> error + 'k MixerBlock" where
  "MixerBlock_init L g num_patches hidden_size mix_patch_size mix_hidden_size key =
     (case split g key 2 of
        [] \<Rightarrow> Inl IndexError
      | k0 # ks \<Rightarrow>
          if \<not> MLP_ok L num_patches num_patches mix_patch_size 1 then Inl LibraryError
          else
            (case ks of
               [] \<Rightarrow> Inl IndexError
             | k1 # _ \<Rightarrow>
                 if \<not> MLP_ok L hidden_size hidden_size mix_hidden_size 1 then Inl LibraryError
                 else if \<not> LayerNorm_ok L [hidden_size, num_patches] then Inl LibraryError
                 else if \<not> LayerNorm_ok L [num_patches, hidden_size] then Inl LibraryError
                 else
                   Inr \<lparr> patch_mixer = \<lparr> in_size = num_patches, out_size = num_patches,
                                          width_size = mix_patch_size, depth = 1,
                                          mlp_key = k0 \<rparr>,
                         hidden_mixer = \<lparr> in_size = hidden_size, out_size = hidden_size,
                                           width_size = mix_hidden_size, depth = 1,
                                           mlp_key = k1 \<rparr>,
                         norm1 = [hidden_size, num_patches],
                         norm2 = [num_patches, hidden_size] \<rparr>))"

text \<open>The list comprehension of lines 55 to 58: one block for each key, in order.\<close>

fun init_blocks ::
  "layers \<Rightarrow> 'k prng \<Rightarrow> int \<Rightarrow> int \<Rightarrow> int \<Rightarrow> int \<Rightarrow> 'k list \<Rightarrow> error + 'k MixerBlock list" where
  "init_blocks L g np hs mps mhs [] = Inr []"
| "init_blocks L g np hs mps mhs (bkey # bkeys) =
     and_then (MixerBlock_init L g np hs mps mhs bkey) (\<lambda>b.
     and_then (init_blocks L g np hs mps mhs bkeys) (\<lambda>bs. Inr (b # bs)))"

text \<open>
  \<^verbatim>\<open>Mixer2d.__init__\<close>, lines 43 to 60. The tuple assignment of line 45 needs three
  sizes; \<open>%\<close> raises on a zero patch size before the assertion is decided; the starred
  assignment of line 49 needs two keys at least. Then the layers are built in the order
  of lines 51 to 59: the convolution, the transposed convolution, the blocks and the
  normalisation layer.
\<close>

definition Mixer2d_init ::
  "layers \<Rightarrow> 'k prng \<Rightarrow> int list \<Rightarrow> int \<Rightarrow> int \<Rightarrow> int \<Rightarrow> int \<Rightarrow> int \<Rightarrow> real \<Rightarrow> 'k \<Rightarrow>
     error + 'k Mixer2d" where
  "Mixer2d_init L g img_size patch_size hidden_size mix_patch_size mix_hidden_size num_blocks
       t1 key =
     (case img_size of
        [input_size, height, width] \<Rightarrow>
          if patch_size = 0 then Inl ZeroDivisionError
          else if height mod patch_size \<noteq> 0 then Inl AssertionError
          else if width mod patch_size \<noteq> 0 then Inl AssertionError
          else
            let num_patches = (height div patch_size) * (width div patch_size) in
            if 2 + num_blocks < 0 then Inl LibraryError
            else
              (case split g key (nat (2 + num_blocks)) of
                 inkey # outkey # bkeys \<Rightarrow>
                   if \<not> Conv2d_ok L (input_size + 1) hidden_size patch_size patch_size
                   then Inl LibraryError
                   else if \<not> ConvTranspose2d_ok L hidden_size input_size patch_size patch_size
                   then Inl LibraryError
                   else
                     and_then
                       (init_blocks L g num_patches hidden_size mix_patch_size mix_hidden_size
                          bkeys)
                       (\<lambda>bs.
                          if \<not> LayerNorm_ok L [hidden_size, num_patches] then Inl LibraryError
                          else
                            Inr \<lparr> conv_in = \<lparr> in_channels = input_size + 1,
                                               out_channels = hidden_size,
                                               kernel_size = patch_size, stride = patch_size,
                                               conv_key = inkey \<rparr>,
                                  conv_out = \<lparr> in_channels = hidden_size,
                                                out_channels = input_size,
                                                kernel_size = patch_size, stride = patch_size,
                                                conv_key = outkey \<rparr>,
                                  blocks = bs,
                                  norm_shape = [hidden_size, num_patches],
                                  mixer_t1 = t1 \<rparr>)
               | _ \<Rightarrow> Inl ValueError)
      | _ \<Rightarrow> Inl ValueError)"

subsection \<open>Shapes through the library layers\<close>

text \<open>
  Modelled from the spec: the library layers are not under \<^verbatim>\<open>src/\<close>. The spec has the
  strided convolution map the image to a grid of non-overlapping patches with
  \<open>hidden_size\<close> channels, and the transposed convolution map the grid back to the original
  resolution and channel count. The sizes below are the ones of a convolution and of a
  transposed convolution with a square kernel, a stride and no padding; both layers check
  the number of channels of their input.
\<close>

definition conv2d_shape :: "'k conv \<Rightarrow> shape \<Rightarrow> error + shape" where
  "conv2d_shape c s =
     (case s of
        [ch, h, w] \<Rightarrow>
          if ch \<noteq> in_channels c then Inl LibraryError
          else Inr [out_channels c,
                    max 0 ((h - kernel_size c) div stride c + 1),
                    max 0 ((w - kernel_size c) div stride c + 1)]
      | _ \<Rightarrow> Inl LibraryError)"

definition conv_transpose2d_shape :: "'k conv \<Rightarrow> shape \<Rightarrow> error + shape" where
  "conv_transpose2d_shape c s =
     (case s of
        [ch, h, w] \<Rightarrow>
          if ch \<noteq> in_channels c then Inl LibraryError
          else Inr [out_channels c,
                    (h - 1) * stride c + kernel_size c,
                    (w - 1) * stride c + kernel_size c]
      | _ \<Rightarrow> Inl LibraryError)"

text \<open>Modelled from the spec: a feed-forward network maps a vector of \<open>in_size\<close> numbers to
  a vector of \<open>out_size\<close> numbers; a normalisation layer keeps the shape it was built
  for and rejects another.\<close>

definition mlp_shape :: "'k mlp \<Rightarrow> shape \<Rightarrow> error + shape" where
  "mlp_shape m s =
     (case s of
        [n] \<Rightarrow> if n = in_size m then Inr [out_size m] else Inl LibraryError
      | _ \<Rightarrow> Inl LibraryError)"

definition layernorm_shape :: "shape \<Rightarrow> shape \<Rightarrow> error + shape" where
  "layernorm_shape ns s = (if s = ns then Inr s else Inl LibraryError)"

text \<open>\<^verbatim>\<open>jax.vmap(f)(x)\<close>: \<open>f\<close> on every slice along the leading axis.\<close>

definition vmap_shape :: "(shape \<Rightarrow> error + shape) \<Rightarrow> shape \<Rightarrow> error + shape" where
  "vmap_shape f s =
     (case s of
        [] \<Rightarrow> Inl ValueError
      | n # rest \<Rightarrow> and_then (f rest) (\<lambda>r. Inr (n # r)))"

text \<open>The shape of an elementwise sum: the shapes are aligned at their last axes, and an
  axis of size one is stretched. \<open>broadcast_rev\<close> works on the reversed shapes.\<close>

fun broadcast_rev :: "shape \<Rightarrow> shape \<Rightarrow> error + shape" where
  "broadcast_rev [] ys = Inr ys"
| "broadcast_rev (x # xs) [] = Inr (x # xs)"
| "broadcast_rev (x # xs) (y # ys) =
     (if x = y \<or> y = 1 then and_then (broadcast_rev xs ys) (\<lambda>r. Inr (x # r))
      else if x = 1 then and_then (broadcast_rev xs ys) (\<lambda>r. Inr (y # r))
      else Inl LibraryError)"

definition add_shape :: "shape \<Rightarrow> shape \<Rightarrow> error + shape" where
  "add_shape a b = and_then (broadcast_rev (rev a) (rev b)) (\<lambda>r. Inr (rev r))"

text \<open>The \<^verbatim>\<open>einops\<close> patterns of the source, and \<^verbatim>\<open>jnp.concatenate\<close> along the first
  axis.\<close>

definition rearrange_swap :: "shape \<Rightarrow> error + shape" where
  \<comment> \<open>\<^verbatim>\<open>"c p -> p c"\<close> and \<^verbatim>\<open>"p c -> c p"\<close>\<close>
  "rearrange_swap s = (case s of [a, b] \<Rightarrow> Inr [b, a] | _ \<Rightarrow> Inl LibraryError)"

definition rearrange_merge :: "shape \<Rightarrow> error + shape" where
  \<comment> \<open>\<^verbatim>\<open>"c h w -> c (h w)"\<close>\<close>
  "rearrange_merge s = (case s of [c, h, w] \<Rightarrow> Inr [c, h * w] | _ \<Rightarrow> Inl LibraryError)"

definition rearrange_split :: "int \<Rightarrow> int \<Rightarrow> shape \<Rightarrow> error + shape" where
  \<comment> \<open>\<^verbatim>\<open>"c (h w) -> c h w"\<close> with \<open>h\<close> and \<open>w\<close> given\<close>
  "rearrange_split h w s =
     (case s of
        [c, n] \<Rightarrow> if n = h * w then Inr [c, h, w] else Inl LibraryError
      | _ \<Rightarrow> Inl LibraryError)"

definition repeat_hw :: "int \<Rightarrow> int \<Rightarrow> shape" where
  \<comment> \<open>\<^verbatim>\<open>einops.repeat(t, "-> 1 h w", h=height, w=width)\<close> of a scalar\<close>
  "repeat_hw h w = [1, h, w]"

definition concatenate :: "shape \<Rightarrow> shape \<Rightarrow> error + shape" where
  "concatenate a b =
     (case (a, b) of
        (m # ra, n # rb) \<Rightarrow> if ra = rb then Inr ((m + n) # ra) else Inl LibraryError
      | _ \<Rightarrow> Inl LibraryError)"

subsection \<open>Forward pass\<close>

text \<open>\<^verbatim>\<open>MixerBlock.__call__\<close>, lines 29 to 34.\<close>

definition MixerBlock_call :: "'k MixerBlock \<Rightarrow> shape \<Rightarrow> error + shape" where
  "MixerBlock_call b y =
     and_then (layernorm_shape (norm1 b) y) (\<lambda>n1.
     and_then (vmap_shape (mlp_shape (patch_mixer b)) n1) (\<lambda>m1.
     and_then (add_shape y m1) (\<lambda>y.
     and_then (rearrange_swap y) (\<lambda>y.
     and_then (layernorm_shape (norm2 b) y) (\<lambda>n2.
     and_then (vmap_shape (mlp_shape (hidden_mixer b)) n2) (\<lambda>m2.
     and_then (add_shape y m2) (\<lambda>y.
     rearrange_swap y)))))))"

text \<open>The loop of lines 70 and 71.\<close>

fun run_blocks :: "'k MixerBlock list \<Rightarrow> shape \<Rightarrow> error + shape" where
  "run_blocks [] y = Inr y"
| "run_blocks (block # rest) y = and_then (MixerBlock_call block y) (run_blocks rest)"

text \<open>\<^verbatim>\<open>Mixer2d.__call__(t, y)\<close>, lines 62 to 74, for a scalar \<open>t\<close> and an array of shape
  \<open>y\<close>. The tuple assignments of lines 64 and 68 need three axes.\<close>

definition Mixer2d_call :: "'k Mixer2d \<Rightarrow> shape \<Rightarrow> error + shape" where
  "Mixer2d_call m y =
     (case y of
        [c, height, width] \<Rightarrow>
          and_then (concatenate y (repeat_hw height width)) (\<lambda>y.
          and_then (conv2d_shape (conv_in m) y) (\<lambda>y.
            (case y of
               [c', patch_height, patch_width] \<Rightarrow>
                 and_then (rearrange_merge y) (\<lambda>y.
                 and_then (run_blocks (blocks m) y) (\<lambda>y.
                 and_then (layernorm_shape (norm_shape m) y) (\<lambda>y.
                 and_then (rearrange_split patch_height patch_width y) (\<lambda>y.
                 conv_transpose2d_shape (conv_out m) y))))
             | _ \<Rightarrow> Inl ValueError)))
      | _ \<Rightarrow> Inl ValueError)"

section \<open>Properties\<close>

subsection \<open>The concrete generators keep the library's contract\<close>

lemma path_split_length: "length (path_split k n) = n"
  by (simp add: path_split_def)

lemma frac_range:
  fixes lo hi c :: real
  assumes "0 \<le> c" "c < 1" "lo < hi"
  shows "lo \<le> lo + c * (hi - lo) \<and> lo + c * (hi - lo) < hi"
proof -
  have d: "0 < hi - lo" using assms(3) by simp
  have "0 \<le> c * (hi - lo)" using assms(1) d by (intro mult_nonneg_nonneg) simp_all
  moreover have "c * (hi - lo) < 1 * (hi - lo)" using assms(2) d by (intro mult_strict_right_mono)
  ultimately show ?thesis by simp
qed

lemma prng_ok_frac:
  assumes "0 \<le> c" "c < 1"
  shows "prng_ok (frac_prng c)"
  unfolding prng_ok_def frac_prng_def
  using frac_range [OF assms] by (simp add: path_split_length list_all_length)

lemma grid_fraction:
  fixes lo hi :: real
  assumes "lo < hi" "i < n"
  shows "lo \<le> lo + (hi - lo) * (real i / real n)" "lo + (hi - lo) * (real i / real n) < hi"
proof -
  have f: "0 \<le> real i / real n" "real i / real n < 1" using assms by simp_all
  have d: "0 < hi - lo" using assms by simp
  show "lo \<le> lo + (hi - lo) * (real i / real n)" using f d by simp
  have "(hi - lo) * (real i / real n) < (hi - lo) * 1"
    using f d by (intro mult_strict_left_mono) simp_all
  then show "lo + (hi - lo) * (real i / real n) < hi" by simp
qed

lemma grid_uniform_range:
  fixes lo hi :: real
  assumes "lo < hi"
  shows "list_all (\<lambda>u. lo \<le> u \<and> u < hi) (map (\<lambda>i. lo + (hi - lo) * (real i / real n)) [0..<n])"
  unfolding list_all_length
proof (intro allI impI)
  fix i assume "i < length (map (\<lambda>i. lo + (hi - lo) * (real i / real n)) [0..<n])"
  then have i: "i < n" by simp
  then have "map (\<lambda>i. lo + (hi - lo) * (real i / real n)) [0..<n] ! i = lo + (hi - lo) * (real i / real n)"
    by simp
  then show "lo \<le> map (\<lambda>i. lo + (hi - lo) * (real i / real n)) [0..<n] ! i \<and>
             map (\<lambda>i. lo + (hi - lo) * (real i / real n)) [0..<n] ! i < hi"
    using grid_fraction [OF assms i] by simp
qed

lemma prng_ok_grid: "prng_ok grid_prng"
  unfolding prng_ok_def grid_prng_def
  using grid_uniform_range by (simp add: path_split_length)

subsection \<open>Noise schedule\<close>

text \<open>
  Claim C7. The schedule starts at zero, \<open>int_beta 0 = 0\<close>; it is non-decreasing; and the
  variance of the loss, the maximum of \<open>1 - exp (- int_beta t)\<close> and the floor \<open>1e-5\<close>, is
  strictly positive at every time, for this schedule and for any other, so that the
  division by its square root is defined, at \<open>t = 0\<close> too.
\<close>

theorem schedule_variance_positive:
  "int_beta 0 = 0 \<and> (\<forall>s t. s \<le> t \<longrightarrow> int_beta s \<le> int_beta t) \<and> (\<forall>ib t. 0 < variance ib t)"
  by (simp add: int_beta_def variance_def less_max_iff_disj)

theorem schedule_variance_positive_witness:
  "int_beta 0 = 0 \<and> (1::real) \<le> 2 \<and> int_beta 1 \<le> int_beta 2 \<and> 0 < variance int_beta 0"
  using schedule_variance_positive by simp

text \<open>
  Claim C8, as stated: the weight \<open>1 - exp (- int_beta t)\<close> is strictly positive at every
  time of the domain, which starts at \<open>0\<close>. It is not: the weight is zero at \<open>t = 0\<close>.
\<close>

theorem weight_zero_counterexample: "\<not> (\<forall>t. 0 \<le> t \<longrightarrow> 0 < weight t)"
proof
  assume "\<forall>t. 0 \<le> t \<longrightarrow> 0 < weight t"
  then have "0 < weight 0" by simp
  then show False by (simp add: weight_def int_beta_def)
qed

text \<open>
  Claim C8, amended: the weight is zero at \<open>t = 0\<close> and non-negative at every time
  \<open>t \<ge> 0\<close>. Nothing more is said of the times \<open>t > 0\<close>: the real number
  \<open>1 - exp (- t)\<close> is positive there, and its rounded value can be zero.
\<close>

theorem weight_nonneg: "weight 0 = 0 \<and> (0 \<le> t \<longrightarrow> 0 \<le> weight t)"
  by (simp add: weight_def int_beta_def)

theorem weight_nonneg_witness: "weight 0 = 0 \<and> (0::real) \<le> 1 \<and> 0 \<le> weight 1"
  using weight_nonneg [of 1] by simp

subsection \<open>Times of a batch\<close>

text \<open>The times of a batch are the drawn offsets, the \<open>i\<close>-th moved by \<open>i\<close> bins.\<close>

lemma batch_times_eq:
  assumes "prng_ok g" "0 < B"
  shows "batch_times g tkey t1 B =
           Inr (map (\<lambda>i. uniform g tkey B 0 (t1 / real B) ! i + real i * (t1 / real B)) [0..<B])"
proof -
  let ?u = "uniform g tkey B 0 (t1 / real B)"
  have len: "length ?u = B" using assms(1) by (simp add: prng_ok_def)
  have "map2 (+) ?u (map (\<lambda>a. (t1 / real B) * a) (arange B)) =
          map (\<lambda>i. ?u ! i + real i * (t1 / real B)) [0..<B]"
    by (rule nth_equalityI) (simp_all add: len arange_def mult.commute)
  moreover from assms(2) have "B \<noteq> 0" by simp
  then have "batch_times g tkey t1 B = Inr (map2 (+) ?u (map (\<lambda>a. (t1 / real B) * a) (arange B)))"
    unfolding batch_times_def Let_def by (rule if_not_P)
  ultimately show ?thesis by (simp only:)
qed

text \<open>In exact arithmetic every time lies in its own half-open bin.\<close>

lemma batch_times_exact_bins:
  assumes "prng_ok g" "0 < B" "0 < t1"
  shows "\<exists>ts. batch_times g tkey t1 B = Inr ts \<and> length ts = B \<and>
           (\<forall>i<B. real i * t1 / real B \<le> ts ! i \<and> ts ! i < real (i + 1) * t1 / real B \<and>
                   0 \<le> ts ! i \<and> ts ! i < t1)"
proof -
  let ?d = "t1 / real B"
  let ?u = "uniform g tkey B 0 ?d"
  let ?ts = "map (\<lambda>i. ?u ! i + real i * ?d) [0..<B]"
  have d: "0 < ?d" using assms by simp
  have len: "length ?u = B" using assms(1) by (simp add: prng_ok_def)
  have rng: "list_all (\<lambda>u. 0 \<le> u \<and> u < ?d) ?u"
    using assms(1) d unfolding prng_ok_def by blast
  have bin: "real i * t1 / real B \<le> ?ts ! i \<and> ?ts ! i < real (i + 1) * t1 / real B \<and>
             0 \<le> ?ts ! i \<and> ?ts ! i < t1" if i: "i < B" for i
  proof -
    have u: "0 \<le> ?u ! i" "?u ! i < ?d"
      using rng i len by (simp_all add: list_all_length)
    have nth: "?ts ! i = ?u ! i + real i * ?d" using i by simp
    have lo: "real i * ?d \<le> ?ts ! i" using u(1) nth by linarith
    have "real (i + 1) = real i + 1" by simp
    then have "real (i + 1) * ?d = real i * ?d + ?d" by (simp only: distrib_right mult_1)
    then have hi: "?ts ! i < real (i + 1) * ?d" using u(2) nth by linarith
    have "0 \<le> real i * ?d" using d by (intro mult_nonneg_nonneg) simp_all
    then have nonneg: "0 \<le> ?ts ! i" using lo by linarith
    have "real (i + 1) \<le> real B" using i by simp
    then have "real (i + 1) * ?d \<le> real B * ?d" using d by (intro mult_right_mono) simp_all
    also have "real B * ?d = t1" using assms(2) by simp
    finally have "?ts ! i < t1" using hi by linarith
    then show ?thesis using lo hi nonneg by simp
  qed
  have "batch_times g tkey t1 B = Inr ?ts" by (rule batch_times_eq [OF assms(1,2)])
  moreover have "length ?ts = B" by simp
  ultimately show ?thesis using bin by blast
qed

text \<open>
  Claim C1, as stated: the times of a batch are one single offset \<open>u\<close>, moved by
  \<open>i * t1 / B\<close> for the \<open>i\<close>-th time. They are not: line 90 draws an array of \<open>B\<close> offsets,
  one for each example, and they differ in general. With the offsets \<open>0\<close> and \<open>2.5\<close>
  of \<open>grid_prng\<close>, \<open>B = 2\<close> and \<open>t1 = 10\<close> the times are \<open>0\<close> and \<open>7.5\<close>, which no single
  offset gives.
\<close>

theorem batch_times_single_offset_counterexample:
  "\<not> (\<forall>(g :: (nat list) prng) tkey t1 B. prng_ok g \<and> 0 < B \<longrightarrow>
        (\<exists>u. batch_times g tkey t1 B = Inr (map (\<lambda>i. u + real i * (t1 / real B)) [0..<B])))"
proof
  assume a: "\<forall>(g :: (nat list) prng) tkey t1 B. prng_ok g \<and> 0 < B \<longrightarrow>
        (\<exists>u. batch_times g tkey t1 B = Inr (map (\<lambda>i. u + real i * (t1 / real B)) [0..<B]))"
  have "prng_ok grid_prng \<and> (0::nat) < 2" using prng_ok_grid by simp
  with a [rule_format, of grid_prng 2 "[]" 10]
  have "\<exists>u. batch_times grid_prng [] 10 2 = Inr (map (\<lambda>i. u + real i * (10 / real 2)) [0..<2])" .
  then obtain u where u: "batch_times grid_prng [] 10 2 = Inr (map (\<lambda>i. u + real i * (10 / real 2)) [0..<2])"
    by blast
  have two: "[0..<2] = [0, Suc 0]" by (simp add: upt_rec)
  have "batch_times grid_prng [] 10 2 = Inr [0, 15 / 2]"
    by (simp add: batch_times_def grid_prng_def arange_def two)
  with u have "map (\<lambda>i. u + real i * (10 / real 2)) [0..<2] = [0, 15 / 2]" by (simp only: sum.inject)
  then have "[u + real 0 * (10 / real 2), u + real (Suc 0) * (10 / real 2)] = [0, 15 / 2]"
    unfolding two by (simp only: list.map)
  then have "u + real 0 * (10 / real 2) = 0 \<and> u + real (Suc 0) * (10 / real 2) = 15 / 2"
    by (simp only: list.inject)
  then have a: "u + real 0 * (10 / real 2) = 0" and b: "u + real (Suc 0) * (10 / real 2) = 15 / 2"
    by (rule conjunct1, rule conjunct2)
  from a have "u = 0" by simp
  moreover from b have "u = 5 / 2" by simp
  ultimately show False by linarith
qed

text \<open>
  Claim C1, amended: the \<open>i\<close>-th time of a batch is the \<open>i\<close>-th of \<open>B\<close> drawn offsets plus
  \<open>i * t1 / B\<close>; in particular, with \<open>B = 4\<close>, \<open>t1 = 10\<close> and the four offsets all equal to
  \<open>0.5\<close>, the times are \<open>0.5\<close>, \<open>3.0\<close>, \<open>5.5\<close> and \<open>8.0\<close>.
\<close>

theorem batch_times_offsets:
  "(prng_ok g \<and> 0 < B \<longrightarrow>
      batch_times g tkey t1 B =
        Inr (map (\<lambda>i. uniform g tkey B 0 (t1 / real B) ! i + real i * (t1 / real B)) [0..<B])) \<and>
   (uniform g tkey 4 0 (10 / 4) = [1/2, 1/2, 1/2, 1/2] \<longrightarrow>
      batch_times g tkey 10 4 = Inr [1/2, 3, 11/2, 8])"
proof (intro conjI impI)
  assume "prng_ok g \<and> 0 < B"
  then have "prng_ok g" "0 < B" by simp_all
  then show "batch_times g tkey t1 B =
        Inr (map (\<lambda>i. uniform g tkey B 0 (t1 / real B) ! i + real i * (t1 / real B)) [0..<B])"
    by (rule batch_times_eq)
next
  assume u: "uniform g tkey 4 0 (10 / 4) = [1/2, 1/2, 1/2, 1/2]"
  have four: "[0..<4] = [0, 1, 2, 3]" by (simp add: upt_rec)
  have u': "uniform g tkey 4 0 (5 / 2) = [1/2, 1/2, 1/2, 1/2]" using u by simp
  show "batch_times g tkey 10 4 = Inr [1/2, 3, 11/2, 8]"
    by (simp add: batch_times_def u' arange_def four)
qed

theorem batch_times_offsets_witness:
  "prng_ok (frac_prng (1/5)) \<and> (0::nat) < 4 \<and>
   uniform (frac_prng (1/5)) [] 4 0 (10 / 4) = [1/2, 1/2, 1/2, 1/2] \<and>
   batch_times (frac_prng (1/5)) [] 10 4 =
     Inr (map (\<lambda>i. uniform (frac_prng (1/5)) [] 4 0 (10 / real 4) ! i + real i * (10 / real 4)) [0..<4]) \<and>
   batch_times (frac_prng (1/5)) [] 10 4 = Inr [1/2, 3, 11/2, 8]"
proof -
  have ok: "prng_ok (frac_prng (1/5))" by (rule prng_ok_frac) simp_all
  have four: "replicate 4 (1/2 :: real) = [1/2, 1/2, 1/2, 1/2]" by (simp add: numeral_eq_Suc)
  have u: "uniform (frac_prng (1/5)) [] 4 0 (10 / 4) = [1/2, 1/2, 1/2, 1/2]"
    by (simp add: frac_prng_def four)
  have h: "prng_ok (frac_prng (1/5)) \<and> (0::nat) < 4" using ok by simp
  note t = batch_times_offsets [of "frac_prng (1/5)" 4 "[]" 10]
  have a: "batch_times (frac_prng (1/5)) [] 10 4 =
     Inr (map (\<lambda>i. uniform (frac_prng (1/5)) [] 4 0 (10 / real 4) ! i + real i * (10 / real 4)) [0..<4])"
    by (rule t [THEN conjunct1, THEN mp, OF h])
  have b: "batch_times (frac_prng (1/5)) [] 10 4 = Inr [1/2, 3, 11/2, 8]"
    by (rule t [THEN conjunct2, THEN mp, OF u])
  show ?thesis using ok u a b by (intro conjI) (simp, simp, assumption+)
qed

subsection \<open>Rounding\<close>

text \<open>The binary formats are roundings: monotone, idempotent and exact at zero.\<close>

lemma round_even_cases: "round_even x = \<lfloor>x\<rfloor> \<or> round_even x = \<lfloor>x\<rfloor> + 1"
  unfolding round_even_def Let_def by auto

lemma round_even_of_int [simp]: "round_even (of_int n) = n"
  unfolding round_even_def Let_def by simp

lemma round_even_zero [simp]: "round_even 0 = 0"
  unfolding round_even_def Let_def by simp

lemma round_even_mono:
  assumes "x \<le> y"
  shows "round_even x \<le> round_even y"
proof (cases "\<lfloor>x\<rfloor> = \<lfloor>y\<rfloor>")
  case True
  then have "x - of_int \<lfloor>x\<rfloor> \<le> y - of_int \<lfloor>y\<rfloor>" using assms by simp
  then show ?thesis unfolding round_even_def Let_def using True by auto
next
  case False
  then have "\<lfloor>x\<rfloor> < \<lfloor>y\<rfloor>" using assms floor_mono [of x y] by linarith
  then have "\<lfloor>x\<rfloor> + 1 \<le> \<lfloor>y\<rfloor>" by simp
  moreover have "round_even x \<le> \<lfloor>x\<rfloor> + 1" using round_even_cases [of x] by auto
  moreover have "\<lfloor>y\<rfloor> \<le> round_even y" using round_even_cases [of y] by auto
  ultimately show ?thesis by linarith
qed

lemma round_even_nonneg: "0 \<le> x \<Longrightarrow> 0 \<le> round_even x"
  using round_even_mono [of 0 x] by simp

lemma ulp_pos: "0 < ulp q emin x"
  by (simp add: ulp_def)

lemma expo_ge: "emin \<le> expo emin x"
  by (simp add: expo_def)

lemma expo_upper:
  assumes "0 < x"
  shows "x < 2 powr (of_int (expo emin x) + 1)"
proof -
  have "log 2 x < of_int \<lfloor>log 2 x\<rfloor> + 1" by linarith
  also have "\<dots> \<le> of_int (expo emin x) + 1" by (simp add: expo_def)
  finally have "log 2 x < of_int (expo emin x) + 1" .
  then show ?thesis using assms by (simp add: less_powr_iff)
qed

lemma expo_lower:
  assumes "0 < x" "emin < expo emin x"
  shows "2 powr (of_int (expo emin x)) \<le> x"
proof -
  have "expo emin x = \<lfloor>log 2 x\<rfloor>" using assms(2) by (simp add: expo_def max_def split: if_splits)
  then have "of_int (expo emin x) \<le> log 2 x" by simp
  then show ?thesis using assms(1) by (simp add: powr_le_iff)
qed

lemma expo_mono:
  assumes "0 < x" "x \<le> y"
  shows "expo emin x \<le> expo emin y"
proof -
  have "log 2 x \<le> log 2 y" using assms by simp
  then have "\<lfloor>log 2 x\<rfloor> \<le> \<lfloor>log 2 y\<rfloor>" by (rule floor_mono)
  then show ?thesis by (simp add: expo_def)
qed

lemma expo_eqI:
  assumes "0 < x" "x < 2 powr (of_int e + 1)" "emin \<le> e" "emin < e \<longrightarrow> 2 powr (of_int e) \<le> x"
  shows "expo emin x = e"
proof -
  have "log 2 x < of_int e + 1" using assms(1,2) by (simp add: less_powr_iff)
  then have up: "\<lfloor>log 2 x\<rfloor> \<le> e" by (simp add: floor_le_iff)
  show ?thesis
  proof (cases "emin < e")
    case True
    then have "2 powr (of_int e) \<le> x" using assms(4) by simp
    then have "of_int e \<le> log 2 x" using assms(1) by (simp add: powr_le_iff)
    then have "e \<le> \<lfloor>log 2 x\<rfloor>" by (simp add: le_floor_iff)
    with up True show ?thesis by (simp add: expo_def)
  next
    case False
    then have "e = emin" using assms(3) by simp
    with up show ?thesis by (simp add: expo_def)
  qed
qed

lemma ulp_scale: "2 powr (of_int (expo emin x) + k) = 2 powr (k + of_nat q) * ulp q emin x"
proof -
  have "2 powr (k + of_nat q) * ulp q emin x =
          2 powr ((k + of_nat q) + (of_int (expo emin x) - of_nat q))"
    unfolding ulp_def by (simp only: powr_add)
  also have "(k + of_nat q) + (of_int (expo emin x) - of_nat q) = of_int (expo emin x) + k" by simp
  finally show ?thesis by simp
qed

lemma two_powr_nat: "(2::real) powr (of_nat n) = of_int (2 ^ n)"
  by (simp add: powr_realpow)

lemma round_mag_nonneg:
  assumes "0 \<le> x"
  shows "0 \<le> round_mag q emin x"
proof (cases "x = 0")
  case True
  then show ?thesis by (simp add: round_mag_def)
next
  case False
  have "0 \<le> x / ulp q emin x" using assms ulp_pos [of q emin x] by simp
  then have "0 \<le> round_even (x / ulp q emin x)" by (rule round_even_nonneg)
  then show ?thesis using False ulp_pos [of q emin x] by (simp add: round_mag_def)
qed

lemma round_mag_upper:
  assumes "0 < x"
  shows "round_mag q emin x \<le> 2 powr (of_int (expo emin x) + 1)"
proof -
  let ?u = "ulp q emin x"
  have top: "2 powr (of_int (expo emin x) + 1) = of_int (2 ^ Suc q) * ?u"
    using ulp_scale [of emin x 1 q] two_powr_nat [of "Suc q"] by (simp add: add.commute)
  have "x < 2 powr (of_int (expo emin x) + 1)" by (rule expo_upper [OF assms])
  then have "x / ?u < of_int (2 ^ Suc q)"
    unfolding top using ulp_pos [of q emin x] by (simp add: pos_divide_less_eq)
  then have "x / ?u \<le> of_int (2 ^ Suc q)" by simp
  then have "round_even (x / ?u) \<le> round_even (of_int (2 ^ Suc q))" by (rule round_even_mono)
  then have "round_even (x / ?u) \<le> 2 ^ Suc q" by (simp only: round_even_of_int)
  then have "(of_int (round_even (x / ?u)) :: real) \<le> of_int (2 ^ Suc q)"
    by (simp only: of_int_le_iff)
  then have "of_int (round_even (x / ?u)) * ?u \<le> of_int (2 ^ Suc q) * ?u"
    using ulp_pos [of q emin x] by (intro mult_right_mono) simp_all
  then show ?thesis using assms unfolding top by (simp add: round_mag_def)
qed

lemma round_mag_lower:
  assumes "0 < x" "emin < expo emin x"
  shows "2 powr (of_int (expo emin x)) \<le> round_mag q emin x"
proof -
  let ?u = "ulp q emin x"
  have bot: "2 powr (of_int (expo emin x)) = of_int (2 ^ q) * ?u"
    using ulp_scale [of emin x 0 q] two_powr_nat [of q] by simp
  have "2 powr (of_int (expo emin x)) \<le> x" by (rule expo_lower [OF assms])
  then have "of_int (2 ^ q) \<le> x / ?u"
    unfolding bot using ulp_pos [of q emin x] by (simp add: pos_le_divide_eq)
  then have "round_even (of_int (2 ^ q)) \<le> round_even (x / ?u)" by (rule round_even_mono)
  then have "2 ^ q \<le> round_even (x / ?u)" by (simp only: round_even_of_int)
  then have "(of_int (2 ^ q) :: real) \<le> of_int (round_even (x / ?u))" by (simp only: of_int_le_iff)
  then have "of_int (2 ^ q) * ?u \<le> of_int (round_even (x / ?u)) * ?u"
    using ulp_pos [of q emin x] by (intro mult_right_mono) simp_all
  then show ?thesis using assms(1) unfolding bot by (simp add: round_mag_def)
qed

lemma round_mag_mono:
  assumes "0 \<le> x" "x \<le> y"
  shows "round_mag q emin x \<le> round_mag q emin y"
proof (cases "x = 0")
  case True
  then show ?thesis using round_mag_nonneg [of y q emin] assms by (simp add: round_mag_def)
next
  case False
  then have x: "0 < x" and y: "0 < y" using assms by simp_all
  have le: "expo emin x \<le> expo emin y" by (rule expo_mono [OF x assms(2)])
  show ?thesis
  proof (cases "expo emin x = expo emin y")
    case True
    then have u: "ulp q emin x = ulp q emin y" by (simp add: ulp_def)
    let ?u = "ulp q emin y"
    have "x / ?u \<le> y / ?u" using assms(2) ulp_pos [of q emin y] by (simp add: divide_right_mono)
    then have "round_even (x / ?u) \<le> round_even (y / ?u)" by (rule round_even_mono)
    then have "(of_int (round_even (x / ?u)) :: real) \<le> of_int (round_even (y / ?u))"
      by (simp only: of_int_le_iff)
    then have "of_int (round_even (x / ?u)) * ?u \<le> of_int (round_even (y / ?u)) * ?u"
      using ulp_pos [of q emin y] by (intro mult_right_mono) simp_all
    then show ?thesis using x y u by (simp add: round_mag_def)
  next
    case False
    then have lt: "expo emin x + 1 \<le> expo emin y" using le by simp
    then have "emin < expo emin y" using expo_ge [of emin x] by linarith
    then have "2 powr (of_int (expo emin y)) \<le> round_mag q emin y" by (rule round_mag_lower [OF y])
    moreover have "round_mag q emin x \<le> 2 powr (of_int (expo emin x) + 1)"
      by (rule round_mag_upper [OF x])
    moreover have "(2::real) powr (of_int (expo emin x) + 1) \<le> 2 powr (of_int (expo emin y))"
    proof -
      have "(of_int (expo emin x) + 1 :: real) \<le> of_int (expo emin y)" using lt by linarith
      then show ?thesis by simp
    qed
    ultimately show ?thesis by linarith
  qed
qed

lemma round_mag_zero [simp]: "round_mag q emin 0 = 0"
  by (simp add: round_mag_def)

lemma round_mag_idem:
  assumes "0 \<le> x"
  shows "round_mag q emin (round_mag q emin x) = round_mag q emin x"
proof (cases "x = 0 \<or> round_mag q emin x = 0")
  case True
  then show ?thesis by auto
next
  case False
  then have x: "0 < x" and vne: "round_mag q emin x \<noteq> 0" using assms by simp_all
  let ?e = "expo emin x" and ?v = "round_mag q emin x" and ?n = "round_even (x / ulp q emin x)"
  have v: "?v = of_int ?n * ulp q emin x" using x by (simp add: round_mag_def)
  have vpos: "0 < ?v" using round_mag_nonneg [OF assms, of q emin] vne by simp
  have up: "?v \<le> 2 powr (of_int ?e + 1)" by (rule round_mag_upper [OF x])
  show ?thesis
  proof (cases "?v < 2 powr (of_int ?e + 1)")
    case True
    have "expo emin ?v = ?e"
    proof (rule expo_eqI [OF vpos True expo_ge])
      show "emin < ?e \<longrightarrow> 2 powr (of_int ?e) \<le> ?v" using round_mag_lower [OF x] by simp
    qed
    then have u: "ulp q emin ?v = ulp q emin x" by (simp add: ulp_def)
    have "?v / ulp q emin x = of_int ?n" using v ulp_pos [of q emin x] by simp
    then have "round_even (?v / ulp q emin x) = ?n" by (simp only: round_even_of_int)
    then have "round_mag q emin ?v = of_int ?n * ulp q emin x" using vne u by (simp add: round_mag_def)
    with v show ?thesis by simp
  next
    case False
    then have veq: "?v = 2 powr (of_int ?e + 1)" using up by simp
    have "log 2 ?v = of_int ?e + 1" by (simp add: veq)
    then have "\<lfloor>log 2 ?v\<rfloor> = ?e + 1" by simp
    then have ev: "expo emin ?v = ?e + 1" using expo_ge [of emin x] by (simp add: expo_def)
    have "2 powr (of_int (expo emin ?v)) = of_int (2 ^ q) * ulp q emin ?v"
      using ulp_scale [of emin ?v 0 q] two_powr_nat [of q] by simp
    then have vu: "?v = of_int (2 ^ q) * ulp q emin ?v" using veq ev by simp
    then have "?v / ulp q emin ?v = of_int (2 ^ q)"
      using ulp_pos [of q emin ?v] by (simp add: field_simps)
    then have "round_even (?v / ulp q emin ?v) = 2 ^ q" by (simp only: round_even_of_int)
    then have "round_mag q emin ?v = of_int (2 ^ q) * ulp q emin ?v"
      using vne by (simp add: round_mag_def)
    also have "\<dots> = ?v" using vu by simp
    finally show ?thesis .
  qed
qed

lemma round_to_mono:
  assumes "x \<le> y"
  shows "round_to q emin x \<le> round_to q emin y"
proof -
  consider "x < 0" "y < 0" | "x < 0" "0 \<le> y" | "0 \<le> x" using assms by linarith
  then show ?thesis
  proof cases
    case 1
    then have "round_mag q emin (- y) \<le> round_mag q emin (- x)"
      using assms by (intro round_mag_mono) simp_all
    then show ?thesis using 1 by (simp add: round_to_def)
  next
    case 2
    have "0 \<le> round_mag q emin (- x)" using 2 by (intro round_mag_nonneg) simp
    moreover have "0 \<le> round_mag q emin y" using 2 by (intro round_mag_nonneg)
    ultimately show ?thesis using 2 by (simp add: round_to_def)
  next
    case 3
    then have "round_mag q emin x \<le> round_mag q emin y" using assms by (intro round_mag_mono)
    then show ?thesis using 3 assms by (simp add: round_to_def)
  qed
qed

lemma round_to_idem: "round_to q emin (round_to q emin x) = round_to q emin x"
proof (cases "x < 0")
  case True
  let ?v = "round_mag q emin (- x)"
  have v: "0 \<le> ?v" using True by (intro round_mag_nonneg) simp
  have i: "round_mag q emin ?v = ?v" using True by (intro round_mag_idem) simp
  show ?thesis
  proof (cases "?v = 0")
    case True
    then show ?thesis using \<open>x < 0\<close> by (simp add: round_to_def)
  next
    case False
    then have "- ?v < 0" using v by simp
    then show ?thesis using \<open>x < 0\<close> i by (simp add: round_to_def)
  qed
next
  case False
  then have x: "0 \<le> x" by simp
  then have "\<not> round_mag q emin x < 0" using round_mag_nonneg [OF x, of q emin] by simp
  then show ?thesis using False round_mag_idem [OF x] by (simp add: round_to_def)
qed

lemma rounding_ok_round_to: "rounding_ok (round_to q emin)"
  unfolding rounding_ok_def using round_to_mono round_to_idem by (simp add: round_to_def)

lemma rounding_ok_fl32: "rounding_ok fl32"
  unfolding fl32_def by (rule rounding_ok_round_to)

lemma rounding_ok_exact: "rounding_ok (\<lambda>x. x)"
  by (simp add: rounding_ok_def)

text \<open>The value of a rounding inside one binade, and the values the example below needs.\<close>

lemma round_even_numeral [simp]: "round_even (numeral n) = numeral n"
  using round_even_of_int [of "numeral n"] by simp

lemma round_to_binade:
  assumes "2 ^ k \<le> x" "x < 2 ^ Suc k" "k \<le> q" "emin \<le> int k"
  shows "round_to q emin x = of_int (round_even (x * 2 ^ (q - k))) / 2 ^ (q - k)"
proof -
  have x: "0 < x"
  proof -
    have "(0::real) < 2 ^ k" by simp
    then show ?thesis using assms(1) by linarith
  qed
  have p1: "(2::real) powr (of_int (int k) + 1) = 2 ^ Suc k"
  proof -
    have "(of_int (int k) + 1 :: real) = of_nat (Suc k)" by simp
    then show ?thesis by (simp only: powr_realpow zero_less_numeral)
  qed
  have p0: "(2::real) powr (of_int (int k)) = 2 ^ k" by (simp add: powr_realpow)
  have e: "expo emin x = int k"
  proof (rule expo_eqI [OF x])
    show "x < 2 powr (of_int (int k) + 1)" using assms(2) by (simp only: p1)
    show "emin \<le> int k" by (rule assms(4))
    show "emin < int k \<longrightarrow> 2 powr (of_int (int k)) \<le> x" using assms(1) by (simp only: p0) simp
  qed
  have "of_int (int k) - of_nat q = - (of_nat (q - k) :: real)" using assms(3) by simp
  then have "ulp q emin x = 2 powr (- of_nat (q - k))" by (simp only: ulp_def e)
  also have "\<dots> = 1 / 2 ^ (q - k)" by (simp add: powr_minus powr_realpow divide_inverse)
  finally have u: "ulp q emin x = 1 / 2 ^ (q - k)" .
  have "round_to q emin x = round_mag q emin x" using x by (simp add: round_to_def)
  also have "\<dots> = of_int (round_even (x / ulp q emin x)) * ulp q emin x"
    using x by (simp add: round_mag_def)
  also have "\<dots> = of_int (round_even (x * 2 ^ (q - k))) / 2 ^ (q - k)" by (simp add: u)
  finally show ?thesis .
qed

lemma fl64_five_halves: "fl64 (5 / 2) = 5 / 2"
proof -
  have "round_to 52 (- 1022) (5 / 2) = of_int (round_even (5 / 2 * 2 ^ (52 - 1))) / 2 ^ (52 - 1)"
    by (rule round_to_binade) simp_all
  then show ?thesis by (simp add: fl64_def)
qed

lemma fl32_five_halves: "fl32 (5 / 2) = 5 / 2"
proof -
  have "round_to 23 (- 126) (5 / 2) = of_int (round_even (5 / 2 * 2 ^ (23 - 1))) / 2 ^ (23 - 1)"
    by (rule round_to_binade) simp_all
  then show ?thesis by (simp add: fl32_def)
qed

lemma fl32_three: "fl32 3 = 3"
proof -
  have "round_to 23 (- 126) 3 = of_int (round_even (3 * 2 ^ (23 - 1))) / 2 ^ (23 - 1)"
    by (rule round_to_binade) simp_all
  then show ?thesis by (simp add: fl32_def)
qed

lemma fl32_fifteen_halves: "fl32 (15 / 2) = 15 / 2"
proof -
  have "round_to 23 (- 126) (15 / 2) = of_int (round_even (15 / 2 * 2 ^ (23 - 2))) / 2 ^ (23 - 2)"
    by (rule round_to_binade) simp_all
  then show ?thesis by (simp add: fl32_def)
qed

lemma fl32_rounds_up_to_ten: "fl32 (41943039 / 4194304) = 10"
proof -
  have r: "round_even (41943039 / 4) = 10485760"
    by (simp add: round_even_def Let_def)
  have "round_to 23 (- 126) (41943039 / 4194304) =
          of_int (round_even (41943039 / 4194304 * 2 ^ (23 - 3))) / 2 ^ (23 - 3)"
    by (rule round_to_binade) simp_all
  then show ?thesis by (simp add: fl32_def r)
qed

subsection \<open>Times of a batch, rounded\<close>

lemma batch_times_fl_eq:
  assumes "prng_ok g" "0 < B"
  shows "batch_times_fl fd fl g tkey t1 B =
           Inr (map (\<lambda>i. fl (uniform g tkey B 0 (fl (fd (t1 / real B))) ! i +
                               fl (fl (fd (t1 / real B)) * fl (real i)))) [0..<B])"
proof -
  let ?d = "fl (fd (t1 / real B))"
  let ?u = "uniform g tkey B 0 ?d"
  have len: "length ?u = B" using assms(1) by (simp add: prng_ok_def)
  have "map2 (\<lambda>u a. fl (u + fl (?d * fl a))) ?u (arange B) =
          map (\<lambda>i. fl (?u ! i + fl (?d * fl (real i)))) [0..<B]"
    by (rule nth_equalityI) (simp_all add: len arange_def)
  moreover from assms(2) have "B \<noteq> 0" by simp
  then have "batch_times_fl fd fl g tkey t1 B =
      Inr (map2 (\<lambda>u a. fl (u + fl (?d * fl a))) ?u (arange B))"
    unfolding batch_times_fl_def Let_def by (rule if_not_P)
  ultimately show ?thesis by (simp only:)
qed

lemma batch_times_fl_exact: "batch_times_fl (\<lambda>x. x) (\<lambda>x. x) g tkey t1 B = batch_times g tkey t1 B"
proof -
  have "map2 (\<lambda>u a. u + t1 / real B * a) xs ys = map2 (+) xs (map (\<lambda>a. t1 / real B * a) ys)"
    for xs ys :: "real list"
    by (induction xs ys rule: list_induct2') simp_all
  then show ?thesis by (simp add: batch_times_fl_def batch_times_def Let_def)
qed

lemma batch_times_rounded_bins:
  assumes "rounding_ok fl" "prng_ok g" "0 < B" "0 < fl (fd (t1 / real B))"
  shows "\<exists>ts. batch_times_fl fd fl g tkey t1 B = Inr ts \<and> length ts = B \<and>
           (\<forall>i<B. fl (fl (fd (t1 / real B)) * fl (real i)) \<le> ts ! i \<and>
                   ts ! i \<le> fl (fl (fl (fd (t1 / real B)) * fl (real i)) + fl (fd (t1 / real B))) \<and>
                   0 \<le> ts ! i)"
proof -
  let ?d = "fl (fd (t1 / real B))"
  let ?u = "uniform g tkey B 0 ?d"
  let ?lo = "\<lambda>i. fl (?d * fl (real i))"
  let ?ts = "map (\<lambda>i. fl (?u ! i + ?lo i)) [0..<B]"
  have mono: "\<And>x y. x \<le> y \<Longrightarrow> fl x \<le> fl y" and idem: "\<And>x. fl (fl x) = fl x" and z: "fl 0 = 0"
    using assms(1) by (simp_all add: rounding_ok_def)
  have len: "length ?u = B" using assms(2) by (simp add: prng_ok_def)
  have rng: "list_all (\<lambda>u. 0 \<le> u \<and> u < ?d) ?u"
    using assms(2,4) unfolding prng_ok_def by blast
  have bin: "?lo i \<le> ?ts ! i \<and> ?ts ! i \<le> fl (?lo i + ?d) \<and> 0 \<le> ?ts ! i" if i: "i < B" for i
  proof -
    have u: "0 \<le> ?u ! i" "?u ! i < ?d" using rng i len by (simp_all add: list_all_length)
    have nth: "?ts ! i = fl (?u ! i + ?lo i)" using i by simp
    have "fl 0 \<le> fl (real i)" by (rule mono) simp
    then have "0 \<le> fl (real i)" by (simp only: z)
    then have "0 \<le> ?d * fl (real i)" using assms(4) by (intro mult_nonneg_nonneg) simp_all
    then have "fl 0 \<le> ?lo i" by (rule mono)
    then have lo0: "0 \<le> ?lo i" by (simp only: z)
    have "fl (?lo i) \<le> fl (?u ! i + ?lo i)" using u(1) by (intro mono) simp
    then have lower: "?lo i \<le> ?ts ! i" by (simp only: idem nth)
    have "fl (?u ! i + ?lo i) \<le> fl (?lo i + ?d)" using u(2) by (intro mono) simp
    then have upper: "?ts ! i \<le> fl (?lo i + ?d)" by (simp only: nth)
    from lower lo0 have "0 \<le> ?ts ! i" by linarith
    with lower upper show ?thesis by simp
  qed
  have "batch_times_fl fd fl g tkey t1 B = Inr ?ts" by (rule batch_times_fl_eq [OF assms(2,3)])
  moreover have "length ?ts = B" by simp
  ultimately show ?thesis using bin by blast
qed

lemma prng_ok_edge: "prng_ok (frac_prng (10485759 / 10485760))"
  by (rule prng_ok_frac) simp_all

lemma edge_offset: "uniform (frac_prng (10485759 / 10485760)) [] 4 0 (5 / 2) ! 3 = 10485759 / 4194304"
  by (simp add: frac_prng_def)

lemma edge_time:
  "batch_times_fl fl64 fl32 (frac_prng (10485759 / 10485760)) [] 10 4 = Inr ts \<Longrightarrow> ts ! 3 = 10"
proof -
  assume a: "batch_times_fl fl64 fl32 (frac_prng (10485759 / 10485760)) [] 10 4 = Inr ts"
  have pos: "(0::nat) < 4" by simp
  have d: "fl32 (fl64 (10 / real 4)) = 5 / 2" by (simp add: fl64_five_halves fl32_five_halves)
  have "ts = map (\<lambda>i. fl32 (uniform (frac_prng (10485759 / 10485760)) [] 4 0
                                   (fl32 (fl64 (10 / real 4))) ! i +
                               fl32 (fl32 (fl64 (10 / real 4)) * fl32 (real i)))) [0..<4]"
    using a batch_times_fl_eq [OF prng_ok_edge pos, of fl64 fl32 "[]" 10] by simp
  then have "ts ! 3 = fl32 (uniform (frac_prng (10485759 / 10485760)) [] 4 0 (5 / 2) ! 3 +
                              fl32 (5 / 2 * fl32 (real 3)))"
    by (simp only: d) simp
  also have "\<dots> = fl32 (10485759 / 4194304 + fl32 (15 / 2))"
    by (simp add: edge_offset fl32_three)
  also have "\<dots> = fl32 (41943039 / 4194304)" by (simp add: fl32_fifteen_halves)
  also have "\<dots> = 10" by (rule fl32_rounds_up_to_ten)
  finally show ?thesis .
qed

text \<open>
  Claim C10, as stated: for a batch of \<open>B \<ge> 1\<close> examples, a terminal time \<open>t1 > 0\<close> and any
  key, the \<open>i\<close>-th time lies in the half-open bin from \<open>i * t1 / B\<close> to \<open>(i + 1) * t1 / B\<close>,
  and so every time lies in the half-open interval from \<open>0\<close> to \<open>t1\<close>. In the arithmetic
  of the code it does not: with \<open>B = 4\<close>, \<open>t1 = 10\<close> and the offset \<open>10485759 / 4194304\<close>, the
  binary32 number below \<open>2.5\<close>, the sum of the offset and \<open>7.5\<close> is rounded to \<open>10\<close>, and
  the last time is \<open>t1\<close> itself.
\<close>

theorem batch_times_float32_counterexample:
  "\<not> (\<forall>(g :: (nat list) prng) tkey t1 B. prng_ok g \<and> 0 < B \<and> 0 < t1 \<longrightarrow>
        (\<exists>ts. batch_times_fl fl64 fl32 g tkey t1 B = Inr ts \<and> length ts = B \<and>
           (\<forall>i<B. real i * t1 / real B \<le> ts ! i \<and> ts ! i < real (i + 1) * t1 / real B \<and>
                   0 \<le> ts ! i \<and> ts ! i < t1)))"
proof
  assume a: "\<forall>(g :: (nat list) prng) tkey t1 B. prng_ok g \<and> 0 < B \<and> 0 < t1 \<longrightarrow>
        (\<exists>ts. batch_times_fl fl64 fl32 g tkey t1 B = Inr ts \<and> length ts = B \<and>
           (\<forall>i<B. real i * t1 / real B \<le> ts ! i \<and> ts ! i < real (i + 1) * t1 / real B \<and>
                   0 \<le> ts ! i \<and> ts ! i < t1))"
  have h: "prng_ok (frac_prng (10485759 / 10485760)) \<and> (0::nat) < 4 \<and> (0::real) < 10"
    using prng_ok_edge by simp
  from a [rule_format, of "frac_prng (10485759 / 10485760)" 4 10 "[]", OF h]
  obtain ts where ts: "batch_times_fl fl64 fl32 (frac_prng (10485759 / 10485760)) [] 10 4 = Inr ts"
    and b: "\<forall>i<4. real i * 10 / real 4 \<le> ts ! i \<and> ts ! i < real (i + 1) * 10 / real 4 \<and>
                   0 \<le> ts ! i \<and> ts ! i < 10"
    by (elim exE conjE)
  from b [rule_format, of 3] have "ts ! 3 < 10" by simp
  moreover have "ts ! 3 = 10" by (rule edge_time [OF ts])
  ultimately show False by simp
qed

text \<open>
  Claim C10, amended: for a batch of \<open>B \<ge> 1\<close> examples, with the bin width \<open>d > 0\<close> that
  the code computes from \<open>t1 / B\<close>, the \<open>i\<close>-th time is the rounded sum of an offset drawn
  from \<open>0\<close> up to \<open>d\<close> and the computed lower edge \<open>i * d\<close>: it is not negative, not below
  that lower edge, and not above the rounded sum of that edge and \<open>d\<close>. The upper edge is
  included. In exact arithmetic, for \<open>t1 > 0\<close>, the \<open>i\<close>-th time lies in the half-open bin
  from \<open>i * t1 / B\<close> to \<open>(i + 1) * t1 / B\<close> and every time lies in the half-open interval
  from \<open>0\<close> to \<open>t1\<close>.
\<close>

theorem batch_times_bins:
  "(rounding_ok fl \<and> prng_ok g \<and> 0 < B \<and> 0 < fl (fd (t1 / real B)) \<longrightarrow>
      (\<exists>ts. batch_times_fl fd fl g tkey t1 B = Inr ts \<and> length ts = B \<and>
           (\<forall>i<B. fl (fl (fd (t1 / real B)) * fl (real i)) \<le> ts ! i \<and>
                   ts ! i \<le> fl (fl (fl (fd (t1 / real B)) * fl (real i)) + fl (fd (t1 / real B))) \<and>
                   0 \<le> ts ! i))) \<and>
   (prng_ok g \<and> 0 < B \<and> 0 < t1 \<longrightarrow>
      (\<exists>ts. batch_times_fl (\<lambda>x. x) (\<lambda>x. x) g tkey t1 B = Inr ts \<and> length ts = B \<and>
           (\<forall>i<B. real i * t1 / real B \<le> ts ! i \<and> ts ! i < real (i + 1) * t1 / real B \<and>
                   0 \<le> ts ! i \<and> ts ! i < t1)))"
proof (intro conjI impI)
  assume "rounding_ok fl \<and> prng_ok g \<and> 0 < B \<and> 0 < fl (fd (t1 / real B))"
  then have "rounding_ok fl" "prng_ok g" "0 < B" "0 < fl (fd (t1 / real B))" by simp_all
  then show "\<exists>ts. batch_times_fl fd fl g tkey t1 B = Inr ts \<and> length ts = B \<and>
           (\<forall>i<B. fl (fl (fd (t1 / real B)) * fl (real i)) \<le> ts ! i \<and>
                   ts ! i \<le> fl (fl (fl (fd (t1 / real B)) * fl (real i)) + fl (fd (t1 / real B))) \<and>
                   0 \<le> ts ! i)"
    by (rule batch_times_rounded_bins)
next
  assume "prng_ok g \<and> 0 < B \<and> 0 < t1"
  then have "prng_ok g" "0 < B" "0 < t1" by simp_all
  then show "\<exists>ts. batch_times_fl (\<lambda>x. x) (\<lambda>x. x) g tkey t1 B = Inr ts \<and> length ts = B \<and>
           (\<forall>i<B. real i * t1 / real B \<le> ts ! i \<and> ts ! i < real (i + 1) * t1 / real B \<and>
                   0 \<le> ts ! i \<and> ts ! i < t1)"
    unfolding batch_times_fl_exact by (rule batch_times_exact_bins)
qed

theorem batch_times_bins_witness:
  "rounding_ok fl32 \<and> prng_ok (frac_prng (10485759 / 10485760)) \<and> (0::nat) < 4 \<and>
   0 < fl32 (fl64 (10 / real 4)) \<and>
   (\<exists>ts. batch_times_fl fl64 fl32 (frac_prng (10485759 / 10485760)) [] 10 4 = Inr ts \<and>
        length ts = 4 \<and> ts ! 3 = 10 \<and>
        (\<forall>i<4. fl32 (fl32 (fl64 (10 / real 4)) * fl32 (real i)) \<le> ts ! i \<and>
                ts ! i \<le> fl32 (fl32 (fl32 (fl64 (10 / real 4)) * fl32 (real i)) + fl32 (fl64 (10 / real 4))) \<and>
                0 \<le> ts ! i)) \<and>
   prng_ok grid_prng \<and> (0::real) < 10 \<and>
   (\<exists>ts. batch_times_fl (\<lambda>x. x) (\<lambda>x. x) grid_prng [] 10 4 = Inr ts \<and> length ts = 4 \<and>
        (\<forall>i<4. real i * 10 / real 4 \<le> ts ! i \<and> ts ! i < real (i + 1) * 10 / real 4 \<and>
                0 \<le> ts ! i \<and> ts ! i < 10))"
proof -
  have d: "0 < fl32 (fl64 (10 / real 4))" by (simp add: fl64_five_halves fl32_five_halves)
  have pos: "(0::nat) < 4" "(0::real) < 10" by simp_all
  have h1: "rounding_ok fl32 \<and> prng_ok (frac_prng (10485759 / 10485760)) \<and> (0::nat) < 4 \<and>
      0 < fl32 (fl64 (10 / real 4))"
    using rounding_ok_fl32 prng_ok_edge d by simp
  have h2: "prng_ok grid_prng \<and> (0::nat) < 4 \<and> (0::real) < 10" using prng_ok_grid by simp
  note t = batch_times_bins [where fl = fl32 and fd = fl64 and B = 4 and ?t1.0 = 10 and tkey = "[]"]
  from t [where g = "frac_prng (10485759 / 10485760)", THEN conjunct1, THEN mp, OF h1]
  obtain ts where ts: "batch_times_fl fl64 fl32 (frac_prng (10485759 / 10485760)) [] 10 4 = Inr ts"
    and l: "length ts = 4"
    and b: "\<forall>i<4. fl32 (fl32 (fl64 (10 / real 4)) * fl32 (real i)) \<le> ts ! i \<and>
                ts ! i \<le> fl32 (fl32 (fl32 (fl64 (10 / real 4)) * fl32 (real i)) + fl32 (fl64 (10 / real 4))) \<and>
                0 \<le> ts ! i"
    by (elim exE conjE)
  have e: "ts ! 3 = 10" by (rule edge_time [OF ts])
  have c1: "\<exists>ts. batch_times_fl fl64 fl32 (frac_prng (10485759 / 10485760)) [] 10 4 = Inr ts \<and>
        length ts = 4 \<and> ts ! 3 = 10 \<and>
        (\<forall>i<4. fl32 (fl32 (fl64 (10 / real 4)) * fl32 (real i)) \<le> ts ! i \<and>
                ts ! i \<le> fl32 (fl32 (fl32 (fl64 (10 / real 4)) * fl32 (real i)) + fl32 (fl64 (10 / real 4))) \<and>
                0 \<le> ts ! i)"
    by (rule exI [of _ ts]) (intro conjI ts l e b)
  have c2: "\<exists>ts. batch_times_fl (\<lambda>x. x) (\<lambda>x. x) grid_prng [] 10 4 = Inr ts \<and> length ts = 4 \<and>
        (\<forall>i<4. real i * 10 / real 4 \<le> ts ! i \<and> ts ! i < real (i + 1) * 10 / real 4 \<and>
                0 \<le> ts ! i \<and> ts ! i < 10)"
    by (rule batch_times_bins [where fl = "\<lambda>x. x" and fd = "\<lambda>x. x" and B = 4 and ?t1.0 = 10
          and tkey = "[]" and g = grid_prng, THEN conjunct2, THEN mp, OF h2])
  from rounding_ok_fl32 prng_ok_edge pos(1) d c1 prng_ok_grid pos(2) c2 show ?thesis
    by (intro conjI)
qed

subsection \<open>Loss of one example\<close>

lemma map2_add_nth:
  assumes "length xs = n" "length ys = n"
  shows "map2 (+) (map f xs) (map h ys) = map (\<lambda>i. f (xs ! i) + h (ys ! i)) [0..<n]"
  using assms by (intro nth_equalityI) simp_all

lemma sum_list_map_upt: "sum_list (map f [0..<n]) = (\<Sum>i<n. f i)"
  by (simp add: interv_sum_list_conv_sum_set_nat atLeast0LessThan)

text \<open>
  Claim C2. For a data point \<open>x\<close>, a time \<open>t\<close> and the noise \<open>n\<close> drawn for the key,
  \<open>single_loss_fn\<close> takes the mean \<open>x * exp (- 0.5 * int_beta t)\<close>, the variance \<open>v\<close>, the
  maximum of \<open>1 - exp (- int_beta t)\<close> and \<open>1e-5\<close>, the noised sample
  \<open>y = mean + sqrt v * n\<close> and the prediction \<open>pred = model t y\<close>, and returns
  \<open>weight t\<close> times the mean over the elements of \<open>(pred + n / sqrt v)\<^sup>2\<close>. The noise and
  the prediction have the shape of the data point, which is not empty.
\<close>

theorem single_loss_fn_formula:
  "let N = length x;
       n = normal g key N;
       v = max (1 - exp (- ib t)) (1 / 100000);
       y = map (\<lambda>i. x ! i * exp (- 0.5 * ib t) + sqrt v * n ! i) [0..<N];
       pred = model t y
   in x \<noteq> [] \<and> length n = N \<and> length pred = N \<longrightarrow>
      single_loss_fn g model w ib x t key =
        w t * ((\<Sum>i<N. (pred ! i + n ! i / sqrt v) ^ 2) / real N)"
proof -
  let ?N = "length x"
  let ?n = "normal g key ?N"
  let ?v = "max (1 - exp (- ib t)) (1 / 100000)"
  let ?y = "map (\<lambda>i. x ! i * exp (- 0.5 * ib t) + sqrt ?v * ?n ! i) [0..<?N]"
  let ?pred = "model t ?y"
  have main: "single_loss_fn g model w ib x t key =
        w t * ((\<Sum>i<?N. (?pred ! i + ?n ! i / sqrt ?v) ^ 2) / real ?N)"
    if len: "length ?n = ?N" "length ?pred = ?N"
  proof -
    have y_eq: "map2 (+) (map (\<lambda>a. a * exp (- 0.5 * ib t)) x) (map (\<lambda>a. sqrt ?v * a) ?n) = ?y"
      using len(1) by (intro map2_add_nth) simp_all
    have "map2 (+) ?pred (map (\<lambda>a. a / sqrt ?v) ?n) =
            map2 (+) (map (\<lambda>a. a) ?pred) (map (\<lambda>a. a / sqrt ?v) ?n)"
      by simp
    also have "\<dots> = map (\<lambda>i. ?pred ! i + ?n ! i / sqrt ?v) [0..<?N]"
      using len by (intro map2_add_nth) simp_all
    finally have p_eq: "map2 (+) ?pred (map (\<lambda>a. a / sqrt ?v) ?n) =
        map (\<lambda>i. ?pred ! i + ?n ! i / sqrt ?v) [0..<?N]" .
    have "single_loss_fn g model w ib x t key =
            w t * jnp_mean (map (\<lambda>z. z ^ 2) (map2 (+) ?pred (map (\<lambda>a. a / sqrt ?v) ?n)))"
      unfolding single_loss_fn_def Let_def variance_def
      by (simp only: y_eq)
    also have "\<dots> = w t * jnp_mean (map (\<lambda>i. (?pred ! i + ?n ! i / sqrt ?v) ^ 2) [0..<?N])"
      by (simp only: p_eq map_map comp_def)
    also have "\<dots> = w t * ((\<Sum>i<?N. (?pred ! i + ?n ! i / sqrt ?v) ^ 2) / real ?N)"
      by (simp add: jnp_mean_def sum_list_map_upt)
    finally show ?thesis .
  qed
  show ?thesis
    unfolding Let_def using main by blast
qed

text \<open>The formula at a data point of two elements, with the noise \<open>1\<close> on both and a
  network that triples its input.\<close>

theorem single_loss_fn_formula_witness:
  "let v = max (1 - exp (- 1)) (1 / 100000) :: real;
       y0 = 1 * exp (- (1/2)) + sqrt v * 1;
       y1 = 2 * exp (- (1/2)) + sqrt v * 1
   in [1, 2 :: real] \<noteq> [] \<and> normal grid_prng [] (length [1, 2 :: real]) = [1, 1] \<and>
      single_loss_fn grid_prng (\<lambda>t y. map (\<lambda>a. 3 * a) y) weight int_beta [1, 2] 1 [] =
        weight 1 * (((3 * y0 + 1 / sqrt v) ^ 2 + (3 * y1 + 1 / sqrt v) ^ 2) / 2)"
proof -
  have two: "[0..<2] = [0, Suc 0]" by (simp add: upt_rec)
  have n: "normal grid_prng [] (length [1, 2 :: real]) = [1, 1]"
    by (simp add: grid_prng_def numeral_2_eq_2)
  have s: "(\<Sum>i<2. f i) = f 0 + f (Suc 0)" for f :: "nat \<Rightarrow> real"
    by (simp add: numeral_2_eq_2)
  note t = single_loss_fn_formula [where x = "[1, 2]" and g = grid_prng and key = "[]"
      and ib = int_beta and t = 1 and model = "\<lambda>t y. map (\<lambda>a. 3 * a) y" and w = weight]
  show ?thesis
    using t unfolding Let_def n
    by (simp add: int_beta_def two s)
qed

subsection \<open>Reverse sampler\<close>

lemma int_beta_derivative: "(int_beta has_real_derivative 1) (at t)"
proof -
  have e: "int_beta = (\<lambda>t. t)" by (rule ext) (simp add: int_beta_def)
  show ?thesis unfolding e by (rule DERIV_ident)
qed

lemma jvp_ok_euler: "jvp_ok euler_library int_beta (\<lambda>t. 1)"
  by (simp add: jvp_ok_def int_beta_derivative euler_library_def)

lemma drift_eq:
  assumes "jvp_ok D ib beta" "length (model t y) = length y"
  shows "drift D model ib t y args =
           map (\<lambda>i. - 0.5 * beta t * (y ! i + model t y ! i)) [0..<length y]"
proof -
  have j: "jvp D ib t 1 = (ib t, beta t)" using assms(1) by (simp add: jvp_ok_def)
  have "map2 (+) y (model t y) = map2 (+) (map (\<lambda>a. a) y) (map (\<lambda>a. a) (model t y))" by simp
  also have "\<dots> = map (\<lambda>i. y ! i + model t y ! i) [0..<length y]"
    using assms(2) by (intro map2_add_nth) simp_all
  finally have s: "map2 (+) y (model t y) = map (\<lambda>i. y ! i + model t y ! i) [0..<length y]" .
  show ?thesis
    unfolding drift_def j Let_def prod.case s by (simp add: comp_def)
qed

text \<open>
  Claim C3. For a schedule \<open>int_beta\<close> with the derivative \<open>beta\<close>, which the library's
  forward-mode differentiation returns as the tangent of \<open>int_beta\<close> at \<open>t\<close>, and a
  network that keeps the shape of its input, \<open>single_sample_fn\<close> draws \<open>y1\<close> from the
  key and returns the first saved state of the solve of the equation with the drift
  \<open>- 0.5 * beta t * (y + model t y)\<close>, by the solver \<open>Tsit5\<close>, from the time \<open>t1\<close> to the time
  \<open>0\<close>, with the first step \<open>- dt0\<close>, from the state \<open>y1\<close>.
\<close>

theorem single_sample_fn_solves:
  assumes "jvp_ok D ib beta" and "\<forall>t y. length (model t y) = length y"
  shows "(\<forall>t. (ib has_real_derivative beta t) (at t)) \<and>
         single_sample_fn D g model ib n dt0 t1 key =
           (case diffeqsolve D
                   (\<lambda>t y args. map (\<lambda>i. - 0.5 * beta t * (y ! i + model t y ! i)) [0..<length y])
                   Tsit5 t1 0 (- dt0) (normal g key n) of
              Inl e \<Rightarrow> Inl e
            | Inr ys \<Rightarrow> (case ys of [] \<Rightarrow> Inl IndexError | y # _ \<Rightarrow> Inr y))"
proof
  show "\<forall>t. (ib has_real_derivative beta t) (at t)" using assms(1) by (simp add: jvp_ok_def)
  have "drift D model ib =
          (\<lambda>t y args. map (\<lambda>i. - 0.5 * beta t * (y ! i + model t y ! i)) [0..<length y])"
    by (intro ext drift_eq [OF assms(1)]) (simp add: assms(2))
  then show "single_sample_fn D g model ib n dt0 t1 key =
           (case diffeqsolve D
                   (\<lambda>t y args. map (\<lambda>i. - 0.5 * beta t * (y ! i + model t y ! i)) [0..<length y])
                   Tsit5 t1 0 (- dt0) (normal g key n) of
              Inl e \<Rightarrow> Inl e
            | Inr ys \<Rightarrow> (case ys of [] \<Rightarrow> Inl IndexError | y # _ \<Rightarrow> Inr y))"
    unfolding single_sample_fn_def Let_def by (simp only:)
qed

theorem single_sample_fn_solves_witness:
  "jvp_ok euler_library int_beta (\<lambda>t. 1) \<and>
   (\<forall>t y. length (map (\<lambda>a. t * a) y) = length (y :: real list)) \<and>
   (\<forall>t. (int_beta has_real_derivative 1) (at t)) \<and>
   single_sample_fn euler_library grid_prng (\<lambda>t y. map (\<lambda>a. t * a) y) int_beta 2 (1 / 10) 10 [] =
     Inr [56, 56]"
proof -
  have l: "\<forall>t y. length (map (\<lambda>a. t * a) y) = length (y :: real list)" by simp
  note t = single_sample_fn_solves [OF jvp_ok_euler l, where g = grid_prng and n = 2
      and ?dt0.0 = "1 / 10" and ?t1.0 = 10 and key = "[]"]
  have two: "[0..<2] = [0, Suc 0]" by (simp add: upt_rec)
  have n: "normal grid_prng [] 2 = [1, 1]" by (simp add: grid_prng_def numeral_2_eq_2)
  from t have d: "\<forall>t. (int_beta has_real_derivative 1) (at t)" by (rule conjunct1)
  from t have "single_sample_fn euler_library grid_prng (\<lambda>t y. map (\<lambda>a. t * a) y) int_beta 2 (1 / 10) 10 [] =
     Inr [56, 56]"
    by (simp add: n euler_library_def two)
  with jvp_ok_euler l d show ?thesis by (intro conjI)
qed

subsection \<open>Loss of a batch\<close>

lemma batch_keys_ok:
  assumes "prng_ok g"
  shows "\<exists>tkey losskey. split g key 2 = [tkey, losskey] \<and>
           batch_keys g key B = Inr (tkey, split g losskey B)"
proof -
  have "length (split g key 2) = 2" using assms by (simp add: prng_ok_def)
  then obtain tkey losskey where s: "split g key 2 = [tkey, losskey]"
    by (auto simp: length_Suc_conv numeral_2_eq_2)
  then have "batch_keys g key B = Inr (tkey, split g losskey B)"
    by (simp add: batch_keys_def)
  with s show ?thesis by blast
qed

lemma vmap3_eq:
  assumes "length xs = n" "length ys = n" "length zs = n"
  shows "vmap3 f xs ys zs = Inr (map (\<lambda>i. f (xs ! i) (ys ! i) (zs ! i)) [0..<n])"
proof -
  have "map (\<lambda>(x, y, z). f x y z) (zip xs (zip ys zs)) = map (\<lambda>i. f (xs ! i) (ys ! i) (zs ! i)) [0..<n]"
    using assms by (intro nth_equalityI) simp_all
  then show ?thesis using assms by (simp add: vmap3_def)
qed

lemma batch_loss_fn_eq:
  assumes "prng_ok g" "data \<noteq> []"
  shows "\<exists>tkey losskey ts.
           split g key 2 = [tkey, losskey] \<and>
           length (split g losskey (length data)) = length data \<and>
           batch_times g tkey t1 (length data) = Inr ts \<and> length ts = length data \<and>
           batch_loss_fn g model w ib data t1 key =
             Inr ((\<Sum>i<length data.
                     single_loss_fn g model w ib (data ! i) (ts ! i)
                       (split g losskey (length data) ! i)) / real (length data))"
proof -
  let ?B = "length data"
  obtain tkey losskey where s: "split g key 2 = [tkey, losskey]"
    and bk: "batch_keys g key ?B = Inr (tkey, split g losskey ?B)"
    using batch_keys_ok [OF assms(1)] by blast
  let ?ks = "split g losskey ?B"
  let ?ts = "map (\<lambda>i. uniform g tkey ?B 0 (t1 / real ?B) ! i + real i * (t1 / real ?B)) [0..<?B]"
  have B: "0 < ?B" using assms(2) by simp
  have lk: "length ?ks = ?B" using assms(1) by (simp add: prng_ok_def)
  have bt: "batch_times g tkey t1 ?B = Inr ?ts" by (rule batch_times_eq [OF assms(1) B])
  have lt: "length ?ts = ?B" by simp
  have vm: "vmap3 (single_loss_fn g model w ib) data ?ts ?ks =
              Inr (map (\<lambda>i. single_loss_fn g model w ib (data ! i) (?ts ! i) (?ks ! i)) [0..<?B])"
    by (rule vmap3_eq [OF refl lt lk])
  have "batch_loss_fn g model w ib data t1 key =
          Inr (jnp_mean (map (\<lambda>i. single_loss_fn g model w ib (data ! i) (?ts ! i) (?ks ! i)) [0..<?B]))"
    unfolding batch_loss_fn_def Let_def by (simp only: bk bt vm sum.case prod.case)
  also have "\<dots> = Inr ((\<Sum>i<?B. single_loss_fn g model w ib (data ! i) (?ts ! i) (?ks ! i)) / real ?B)"
    by (simp add: jnp_mean_def sum_list_map_upt)
  finally have "batch_loss_fn g model w ib data t1 key =
     Inr ((\<Sum>i<?B. single_loss_fn g model w ib (data ! i) (?ts ! i) (?ks ! i)) / real ?B)" .
  with s lk bt lt show ?thesis by blast
qed

text \<open>
  Claim C4. For a batch of \<open>B \<ge> 1\<close> data points, \<open>batch_loss_fn\<close> splits the noise key into
  \<open>B\<close> keys, one for each example, and returns the arithmetic mean of the \<open>B\<close> losses,
  where the \<open>i\<close>-th loss is \<open>single_loss_fn\<close> on the \<open>i\<close>-th data point, the \<open>i\<close>-th time
  and the \<open>i\<close>-th key, and on nothing of another example.
\<close>

theorem batch_loss_fn_mean:
  assumes "prng_ok g" "data \<noteq> []"
  shows "\<exists>tkey losskey ts.
           split g key 2 = [tkey, losskey] \<and>
           length (split g losskey (length data)) = length data \<and>
           batch_times g tkey t1 (length data) = Inr ts \<and> length ts = length data \<and>
           batch_loss_fn g model w ib data t1 key =
             Inr ((\<Sum>i<length data.
                     single_loss_fn g model w ib (data ! i) (ts ! i)
                       (split g losskey (length data) ! i)) / real (length data))"
  using assms by (rule batch_loss_fn_eq)

theorem batch_loss_fn_mean_witness:
  "prng_ok grid_prng \<and> [[1], [2 :: real]] \<noteq> [] \<and>
   (\<exists>tkey losskey ts.
       split grid_prng [] 2 = [tkey, losskey] \<and>
       length (split grid_prng losskey (length [[1], [2 :: real]])) = length [[1], [2 :: real]] \<and>
       batch_times grid_prng tkey 10 (length [[1], [2 :: real]]) = Inr ts \<and>
       length ts = length [[1], [2 :: real]] \<and>
       batch_loss_fn grid_prng (\<lambda>t y. y) weight int_beta [[1], [2]] 10 [] =
         Inr ((\<Sum>i<length [[1], [2 :: real]].
                 single_loss_fn grid_prng (\<lambda>t y. y) weight int_beta ([[1], [2]] ! i) (ts ! i)
                   (split grid_prng losskey (length [[1], [2 :: real]]) ! i))
              / real (length [[1], [2 :: real]])))"
proof -
  have ne: "[[1], [2 :: real]] \<noteq> []" by simp
  show ?thesis
    by (intro conjI) (rule prng_ok_grid, rule ne, rule batch_loss_fn_mean [OF prng_ok_grid ne])
qed

subsection \<open>Keys of a training step\<close>

lemma make_step_eq:
  assumes "prng_ok g" "data \<noteq> []"
  shows "\<exists>loss k. batch_loss_fn g (forward model) w ib data t1 key = Inr loss \<and>
           split g key 1 = [k] \<and>
           make_step g forward grad update apply_updates model w ib data t1 key opt_state =
             Inr (loss,
                  apply_updates model
                    (fst (update (grad (\<lambda>m. batch_loss_fn g (forward m) w ib data t1 key) model) opt_state)),
                  k,
                  snd (update (grad (\<lambda>m. batch_loss_fn g (forward m) w ib data t1 key) model) opt_state))"
proof -
  obtain loss where l: "batch_loss_fn g (forward model) w ib data t1 key = Inr loss"
    using batch_loss_fn_eq [OF assms, of key t1 "forward model" w ib] by blast
  have "length (split g key 1) = 1" using assms(1) by (simp add: prng_ok_def)
  then obtain k where k: "split g key 1 = [k]"
    by (auto simp: length_Suc_conv)
  have "make_step g forward grad update apply_updates model w ib data t1 key opt_state =
             Inr (loss,
                  apply_updates model
                    (fst (update (grad (\<lambda>m. batch_loss_fn g (forward m) w ib data t1 key) model) opt_state)),
                  k,
                  snd (update (grad (\<lambda>m. batch_loss_fn g (forward m) w ib data t1 key) model) opt_state))"
    unfolding make_step_def by (simp only: l k sum.case Let_def case_prod_beta list.case)
  with l k show ?thesis by blast
qed

text \<open>
  Claim C6 asks that the key \<open>make_step\<close> returns differ from every key derived from the
  same input key inside \<open>batch_loss_fn\<close>. Line 117 splits the input key once more, after
  line 88 has split it already. Whenever the first key of a split into one equals the
  first key of a split into two, as for a generator whose \<open>i\<close>-th key does not depend on
  the number of keys asked for, the key the step returns is the time-sampling key of that
  very step.
\<close>

theorem make_step_returns_time_key:
  assumes "prng_ok g" "data \<noteq> []"
    and "hd (split g key 1) = hd (split g key 2)"
  shows "\<exists>loss model' opt_state' tkey losskeys.
           batch_keys g key (length data) = Inr (tkey, losskeys) \<and>
           make_step g forward grad update apply_updates model w ib data t1 key opt_state =
             Inr (loss, model', tkey, opt_state')"
proof -
  obtain tkey losskey where s: "split g key 2 = [tkey, losskey]"
    and bk: "batch_keys g key (length data) = Inr (tkey, split g losskey (length data))"
    using batch_keys_ok [OF assms(1)] by blast
  obtain loss k m' s' where k: "split g key 1 = [k]"
    and ms: "make_step g forward grad update apply_updates model w ib data t1 key opt_state =
               Inr (loss, m', k, s')"
    using make_step_eq [OF assms(1,2), where forward = forward and model = model and w = w
        and ib = ib and ?t1.0 = t1 and key = key and grad = grad and update = update
        and apply_updates = apply_updates and opt_state = opt_state]
    by blast
  have "k = tkey" using assms(3) s k by simp
  with bk ms show ?thesis by blast
qed

theorem make_step_returns_time_key_witness:
  "prng_ok (frac_prng 0) \<and> [[1 :: real]] \<noteq> [] \<and>
   hd (split (frac_prng 0) [] 1) = hd (split (frac_prng 0) [] 2) \<and>
   batch_keys (frac_prng 0) [] (length [[1 :: real]]) = Inr ([0], [[1, 0]]) \<and>
   (\<exists>loss model' opt_state'.
      make_step (frac_prng 0) (\<lambda>m t y. y) (\<lambda>f m. ()) (\<lambda>gr s. ((), s)) (\<lambda>m u. m)
          () weight int_beta [[1]] 10 [] () = Inr (loss, model', [0], opt_state'))"
proof -
  have ok: "prng_ok (frac_prng 0)" by (rule prng_ok_frac) simp_all
  have ne: "[[1 :: real]] \<noteq> []" by simp
  have one: "[0..<1] = [0]" and two: "[0..<2] = [0, 1]" by (simp_all add: upt_rec)
  have s1: "split (frac_prng 0) [] 1 = [[0]]" by (simp add: frac_prng_def path_split_def)
  have s2: "split (frac_prng 0) [] 2 = [[0], [1]]" by (simp add: frac_prng_def path_split_def two)
  have s3: "split (frac_prng 0) [1] 1 = [[1, 0]]" by (simp add: frac_prng_def path_split_def)
  have h: "hd (split (frac_prng 0) [] 1) = hd (split (frac_prng 0) [] 2)" by (simp only: s1 s2 list.sel)
  have bk: "batch_keys (frac_prng 0) [] (length [[1 :: real]]) = Inr ([0], [[1, 0]])"
    unfolding batch_keys_def by (simp only: s2 s3 list.case list.size One_nat_def [symmetric] add_0)
  obtain loss m' s' tkey lks where
      b: "batch_keys (frac_prng 0) [] (length [[1 :: real]]) = Inr (tkey, lks)"
    and m: "make_step (frac_prng 0) (\<lambda>m t y. y) (\<lambda>f m. ()) (\<lambda>gr s. ((), s)) (\<lambda>m u. m)
          () weight int_beta [[1]] 10 [] () = Inr (loss, m', tkey, s')"
    using make_step_returns_time_key [OF ok ne h, of "\<lambda>m t y. y" "\<lambda>f m. ()" "\<lambda>gr s. ((), s)"
        "\<lambda>m u. m" "()" weight int_beta 10 "()"]
    by blast
  from b bk have "tkey = [0]" by simp
  with m have "\<exists>loss model' opt_state'.
      make_step (frac_prng 0) (\<lambda>m t y. y) (\<lambda>f m. ()) (\<lambda>gr s. ((), s)) (\<lambda>m u. m)
          () weight int_beta [[1]] 10 [] () = Inr (loss, model', [0], opt_state')"
    by blast
  with ok ne h bk show ?thesis by blast
qed

subsection \<open>Score network\<close>

lemma and_then_Inr [simp]: "and_then (Inr x) f = f x"
  by (simp add: and_then_def)

lemma and_then_Inl [simp]: "and_then (Inl e) f = Inl e"
  by (simp add: and_then_def)

lemma and_then_InrD:
  assumes "and_then r f = Inr y"
  obtains x where "r = Inr x" "f x = Inr y"
  using assms by (cases r) simp_all

lemma broadcast_rev_same: "broadcast_rev xs xs = Inr xs"
  by (induction xs) simp_all

lemma add_shape_same: "add_shape s s = Inr s"
  by (simp add: add_shape_def broadcast_rev_same)

lemma MixerBlock_init_InrD:
  assumes "MixerBlock_init L g np hs mps mhs key = Inr b"
  shows "norm1 b = [hs, np] \<and> norm2 b = [np, hs] \<and>
         in_size (patch_mixer b) = np \<and> out_size (patch_mixer b) = np \<and>
         in_size (hidden_mixer b) = hs \<and> out_size (hidden_mixer b) = hs"
  using assms unfolding MixerBlock_init_def
  by (auto split: list.splits if_splits)

lemma MixerBlock_init_ok:
  assumes "prng_ok g"
    and "MLP_ok L np np mps 1" "MLP_ok L hs hs mhs 1"
    and "LayerNorm_ok L [hs, np]" "LayerNorm_ok L [np, hs]"
  shows "\<exists>b. MixerBlock_init L g np hs mps mhs key = Inr b"
proof -
  have "length (split g key 2) = 2" using assms(1) by (simp add: prng_ok_def)
  then obtain k0 k1 where "split g key 2 = [k0, k1]"
    by (auto simp: length_Suc_conv numeral_2_eq_2)
  then show ?thesis using assms(2-5) by (simp add: MixerBlock_init_def)
qed

lemma MixerBlock_call_fixed:
  assumes "norm1 b = [hs, np] \<and> norm2 b = [np, hs] \<and>
         in_size (patch_mixer b) = np \<and> out_size (patch_mixer b) = np \<and>
         in_size (hidden_mixer b) = hs \<and> out_size (hidden_mixer b) = hs"
  shows "MixerBlock_call b [hs, np] = Inr [hs, np]"
  using assms
  by (simp add: MixerBlock_call_def layernorm_shape_def vmap_shape_def mlp_shape_def
      add_shape_same rearrange_swap_def)

lemma init_blocks_InrD:
  assumes "init_blocks L g np hs mps mhs ks = Inr bs"
  shows "length bs = length ks \<and> run_blocks bs [hs, np] = Inr [hs, np]"
  using assms
proof (induction ks arbitrary: bs)
  case Nil
  then show ?case by simp
next
  case (Cons k ks)
  from Cons.prems obtain b where b: "MixerBlock_init L g np hs mps mhs k = Inr b"
    and r: "and_then (init_blocks L g np hs mps mhs ks) (\<lambda>bs. Inr (b # bs)) = Inr bs"
    by (auto elim: and_then_InrD)
  from r obtain bs' where bs': "init_blocks L g np hs mps mhs ks = Inr bs'" and e: "bs = b # bs'"
    by (auto elim: and_then_InrD)
  have call: "MixerBlock_call b [hs, np] = Inr [hs, np]"
    by (rule MixerBlock_call_fixed [OF MixerBlock_init_InrD [OF b]])
  from Cons.IH [OF bs'] show ?case by (simp add: e call)
qed

lemma init_blocks_ok:
  assumes "prng_ok g"
    and "MLP_ok L np np mps 1" "MLP_ok L hs hs mhs 1"
    and "LayerNorm_ok L [hs, np]" "LayerNorm_ok L [np, hs]"
  shows "\<exists>bs. init_blocks L g np hs mps mhs ks = Inr bs"
proof (induction ks)
  case Nil
  show ?case by simp
next
  case (Cons k ks)
  obtain b where b: "MixerBlock_init L g np hs mps mhs k = Inr b"
    using MixerBlock_init_ok [OF assms] by blast
  obtain bs where bs: "init_blocks L g np hs mps mhs ks = Inr bs" using Cons.IH by blast
  show ?case by (simp add: b bs)
qed

lemma conv_patch_dim:
  fixes h p :: int
  assumes "0 < p" "0 < h" "h mod p = 0"
  shows "max 0 ((h - p) div p + 1) = h div p" "(h div p - 1) * p + p = h" "0 < h div p"
proof -
  have dv: "p dvd h" using assms(3) by (simp add: dvd_eq_mod_eq_0)
  then obtain q where q: "h = p * q" by (auto simp: dvd_def)
  have qpos: "0 < q" using assms(1,2) q by (simp add: zero_less_mult_iff)
  have "(h - p) div p = q - 1"
  proof -
    have "h - p = p * (q - 1)" using q by (simp add: algebra_simps)
    then show ?thesis using assms(1) by simp
  qed
  moreover have hq: "h div p = q" using q assms(1) by simp
  ultimately show "max 0 ((h - p) div p + 1) = h div p" using qpos by simp
  show "(h div p - 1) * p + p = h" using hq q by (simp add: algebra_simps)
  show "0 < h div p" using hq qpos by simp
qed

lemma Mixer2d_init_InrD:
  assumes "Mixer2d_init L g [c, h, w] p hs mps mhs nb t1 key = Inr m"
  shows "p \<noteq> 0" "h mod p = 0" "w mod p = 0"
    "in_channels (conv_in m) = c + 1" "out_channels (conv_in m) = hs"
    "kernel_size (conv_in m) = p" "stride (conv_in m) = p"
    "in_channels (conv_out m) = hs" "out_channels (conv_out m) = c"
    "kernel_size (conv_out m) = p" "stride (conv_out m) = p"
    "run_blocks (blocks m) [hs, (h div p) * (w div p)] = Inr [hs, (h div p) * (w div p)]"
    "norm_shape m = [hs, (h div p) * (w div p)]"
proof -
  let ?np = "(h div p) * (w div p)"
  show p: "p \<noteq> 0" and h: "h mod p = 0" and w: "w mod p = 0"
    using assms unfolding Mixer2d_init_def Let_def by (auto split: if_splits)
  from assms obtain inkey outkey bkeys bs where
    bs: "init_blocks L g ?np hs mps mhs bkeys = Inr bs"
    and m: "m = \<lparr> conv_in = \<lparr> in_channels = c + 1, out_channels = hs,
                              kernel_size = p, stride = p, conv_key = inkey \<rparr>,
                  conv_out = \<lparr> in_channels = hs, out_channels = c,
                               kernel_size = p, stride = p, conv_key = outkey \<rparr>,
                  blocks = bs, norm_shape = [hs, ?np], mixer_t1 = t1 \<rparr>"
    unfolding Mixer2d_init_def Let_def
    by (auto split: if_splits list.splits elim!: and_then_InrD)
  show "in_channels (conv_in m) = c + 1" "out_channels (conv_in m) = hs"
    "kernel_size (conv_in m) = p" "stride (conv_in m) = p"
    "in_channels (conv_out m) = hs" "out_channels (conv_out m) = c"
    "kernel_size (conv_out m) = p" "stride (conv_out m) = p"
    "norm_shape m = [hs, ?np]"
    by (simp_all add: m)
  show "run_blocks (blocks m) [hs, ?np] = Inr [hs, ?np]"
    using init_blocks_InrD [OF bs] by (simp add: m)
qed

lemma Mixer2d_init_ok:
  assumes "prng_ok g" "layers_ok L"
    and "0 < p" "h mod p = 0" "w mod p = 0" "0 \<le> nb"
    and "0 < c" "0 < h" "0 < w" "0 < hs" "0 < mps" "0 < mhs"
  shows "\<exists>m. Mixer2d_init L g [c, h, w] p hs mps mhs nb t1 key = Inr m \<and>
           length (blocks m) = nat nb \<and>
           norm_shape m = [hs, (h div p) * (w div p)]"
proof -
  let ?np = "(h div p) * (w div p)"
  have np: "0 < ?np"
    using conv_patch_dim(3) [OF assms(3,8,4)] conv_patch_dim(3) [OF assms(3,9,5)] by simp
  have c1: "Conv2d_ok L (c + 1) hs p p"
    using assms(2,3,7,10) unfolding layers_ok_def by simp
  have c2: "ConvTranspose2d_ok L hs c p p"
    using assms(2,3,7,10) unfolding layers_ok_def by simp
  have m1: "MLP_ok L ?np ?np mps 1" using assms(2,11) np unfolding layers_ok_def by simp
  have m2: "MLP_ok L hs hs mhs 1" using assms(2,10,12) unfolding layers_ok_def by simp
  have n1: "LayerNorm_ok L [hs, ?np]" using assms(2,10) np unfolding layers_ok_def by simp
  have n2: "LayerNorm_ok L [?np, hs]" using assms(2,10) np unfolding layers_ok_def by simp
  have "length (split g key (nat (2 + nb))) = nat (2 + nb)"
    using assms(1) by (simp add: prng_ok_def)
  moreover have "nat (2 + nb) = Suc (Suc (nat nb))" using assms(6) by simp
  ultimately obtain inkey outkey bkeys where
    sp: "split g key (nat (2 + nb)) = inkey # outkey # bkeys" and lb: "length bkeys = nat nb"
    by (auto simp: length_Suc_conv)
  obtain bs where bs: "init_blocks L g ?np hs mps mhs bkeys = Inr bs"
    using init_blocks_ok [OF assms(1) m1 m2 n1 n2] by blast
  have lbs: "length bs = nat nb" using init_blocks_InrD [OF bs] lb by simp
  have nb: "\<not> 2 + nb < 0" using assms(6) by simp
  have p0: "p \<noteq> 0" using assms(3) by simp
  show ?thesis
    unfolding Mixer2d_init_def Let_def
    using p0 assms(4,5) nb c1 c2 n1 by (simp add: sp bs lbs)
qed

lemma Mixer2d_call_shape:
  assumes "Mixer2d_init L g [c, h, w] p hs mps mhs nb t1 key = Inr m"
    and "0 < p" "0 < h" "0 < w"
  shows "Mixer2d_call m [c, h, w] = Inr [c, h, w]"
proof -
  let ?ph = "h div p" and ?pw = "w div p"
  note d = Mixer2d_init_InrD [OF assms(1)]
  have cat: "concatenate [c, h, w] (repeat_hw h w) = Inr [c + 1, h, w]"
    by (simp add: concatenate_def repeat_hw_def)
  have conv: "conv2d_shape (conv_in m) [c + 1, h, w] = Inr [hs, ?ph, ?pw]"
    using d(4-7) conv_patch_dim(1) [OF assms(2,3) d(2)] conv_patch_dim(1) [OF assms(2,4) d(3)]
    by (simp add: conv2d_shape_def)
  have merge: "rearrange_merge [hs, ?ph, ?pw] = Inr [hs, ?ph * ?pw]"
    by (simp add: rearrange_merge_def)
  have blk: "run_blocks (blocks m) [hs, ?ph * ?pw] = Inr [hs, ?ph * ?pw]" by (rule d(12))
  have nrm: "layernorm_shape (norm_shape m) [hs, ?ph * ?pw] = Inr [hs, ?ph * ?pw]"
    using d(13) by (simp add: layernorm_shape_def)
  have spl: "rearrange_split ?ph ?pw [hs, ?ph * ?pw] = Inr [hs, ?ph, ?pw]"
    by (simp add: rearrange_split_def)
  have out: "conv_transpose2d_shape (conv_out m) [hs, ?ph, ?pw] = Inr [c, h, w]"
    using d(8-11) conv_patch_dim(2) [OF assms(2,3) d(2)] conv_patch_dim(2) [OF assms(2,4) d(3)]
    by (simp add: conv_transpose2d_shape_def)
  show ?thesis
    unfolding Mixer2d_call_def
    by (simp add: cat conv merge blk nrm spl out)
qed

lemma layers_ok_positive: "layers_ok positive_layers"
  by (simp add: layers_ok_def positive_layers_def)

lemma mnist_network:
  "\<exists>m. Mixer2d_init positive_layers (frac_prng 0) [1, 28, 28] 4 64 512 512 4 10 [] = Inr m \<and>
       length (blocks m) = nat 4 \<and> norm_shape m = [64, (28 div 4) * (28 div 4)]"
proof -
  have ok: "prng_ok (frac_prng 0)" by (rule prng_ok_frac) simp_all
  show ?thesis
    by (rule Mixer2d_init_ok [OF ok layers_ok_positive]) simp_all
qed

text \<open>
  Claim C5. For a network built for the image size \<open>[c, h, w]\<close>, with a positive patch size
  and positive height and width, the forward pass on a scalar time and an array of shape
  \<open>[c, h, w]\<close> returns an array of shape \<open>[c, h, w]\<close>: the time channel concatenated to the
  input, which makes \<open>c + 1\<close> channels, is not in the output.
\<close>

theorem Mixer2d_call_same_shape:
  assumes "prng_ok g"
    and "Mixer2d_init L g [c, h, w] p hs mps mhs nb t1 key = Inr m"
    and "0 < p" "0 < h" "0 < w"
  shows "concatenate [c, h, w] (repeat_hw h w) = Inr [c + 1, h, w] \<and>
         Mixer2d_call m [c, h, w] = Inr [c, h, w]"
proof
  show "concatenate [c, h, w] (repeat_hw h w) = Inr [c + 1, h, w]"
    by (simp add: concatenate_def repeat_hw_def)
  show "Mixer2d_call m [c, h, w] = Inr [c, h, w]"
    using assms(2-5) by (rule Mixer2d_call_shape)
qed

theorem Mixer2d_call_same_shape_witness:
  "prng_ok (frac_prng 0) \<and> (0::int) < 4 \<and> (0::int) < 28 \<and>
   (\<exists>m. Mixer2d_init positive_layers (frac_prng 0) [1, 28, 28] 4 64 512 512 4 10 [] = Inr m \<and>
        concatenate [1, 28, 28] (repeat_hw 28 28) = Inr [1 + 1, 28, 28] \<and>
        Mixer2d_call m [1, 28, 28] = Inr [1, 28, 28])"
proof -
  have ok: "prng_ok (frac_prng 0)" by (rule prng_ok_frac) simp_all
  have pos: "(0::int) < 4" "(0::int) < 28" by simp_all
  obtain m where m: "Mixer2d_init positive_layers (frac_prng 0) [1, 28, 28] 4 64 512 512 4 10 [] = Inr m"
    using mnist_network by blast
  note t = Mixer2d_call_same_shape [OF ok m pos(1) pos(2) pos(2)]
  have "Mixer2d_init positive_layers (frac_prng 0) [1, 28, 28] 4 64 512 512 4 10 [] = Inr m \<and>
        concatenate [1, 28, 28] (repeat_hw 28 28) = Inr [1 + 1, 28, 28] \<and>
        Mixer2d_call m [1, 28, 28] = Inr [1, 28, 28]"
    by (rule conjI [OF m t])
  then have "\<exists>m. Mixer2d_init positive_layers (frac_prng 0) [1, 28, 28] 4 64 512 512 4 10 [] = Inr m \<and>
        concatenate [1, 28, 28] (repeat_hw 28 28) = Inr [1 + 1, 28, 28] \<and>
        Mixer2d_call m [1, 28, 28] = Inr [1, 28, 28]" by (rule exI)
  with ok pos show ?thesis by (intro conjI)
qed

lemma Mixer2d_init_fails:
  assumes "\<not> (p dvd h \<and> p dvd w)"
  shows "Mixer2d_init L g [c, h, w] p hs mps mhs nb t1 key =
           Inl (if p = 0 then ZeroDivisionError else AssertionError)"
proof (cases "p = 0")
  case True
  then show ?thesis by (simp add: Mixer2d_init_def)
next
  case False
  have "h mod p \<noteq> 0 \<or> w mod p \<noteq> 0" using assms by (auto simp: dvd_eq_mod_eq_0)
  then show ?thesis using False by (auto simp: Mixer2d_init_def)
qed

text \<open>
  Claim C9. Building a network for an image whose height or width the patch size does not
  divide fails at once: with an \<open>AssertionError\<close>, or with a \<open>ZeroDivisionError\<close> for a
  patch size zero, whatever the library, the generator and the key, none of which has
  been used yet. When a positive patch size divides both, the number of blocks is not
  negative and the channels, the height, the width, the hidden size and the two mixer
  widths are positive, so that the layer constructors accept their arguments, the network
  is built, with that number of blocks.
\<close>

theorem Mixer2d_init_divisibility:
  "(\<not> (p dvd h \<and> p dvd w) \<longrightarrow>
      Mixer2d_init L g [c, h, w] p hs mps mhs nb t1 key =
        Inl (if p = 0 then ZeroDivisionError else AssertionError)) \<and>
   (prng_ok g \<and> layers_ok L \<and> 0 < p \<and> 0 \<le> nb \<and> p dvd h \<and> p dvd w \<and>
    0 < c \<and> 0 < h \<and> 0 < w \<and> 0 < hs \<and> 0 < mps \<and> 0 < mhs \<longrightarrow>
      (\<exists>m. Mixer2d_init L g [c, h, w] p hs mps mhs nb t1 key = Inr m \<and>
           length (blocks m) = nat nb \<and>
           norm_shape m = [hs, (h div p) * (w div p)]))"
proof (intro conjI impI)
  assume "\<not> (p dvd h \<and> p dvd w)"
  then show "Mixer2d_init L g [c, h, w] p hs mps mhs nb t1 key =
        Inl (if p = 0 then ZeroDivisionError else AssertionError)"
    by (rule Mixer2d_init_fails)
next
  assume a: "prng_ok g \<and> layers_ok L \<and> 0 < p \<and> 0 \<le> nb \<and> p dvd h \<and> p dvd w \<and>
    0 < c \<and> 0 < h \<and> 0 < w \<and> 0 < hs \<and> 0 < mps \<and> 0 < mhs"
  then have "prng_ok g" "layers_ok L" "0 < p" "h mod p = 0" "w mod p = 0" "0 \<le> nb"
    "0 < c" "0 < h" "0 < w" "0 < hs" "0 < mps" "0 < mhs"
    by (simp_all add: dvd_eq_mod_eq_0)
  then show "\<exists>m. Mixer2d_init L g [c, h, w] p hs mps mhs nb t1 key = Inr m \<and>
           length (blocks m) = nat nb \<and>
           norm_shape m = [hs, (h div p) * (w div p)]"
    by (rule Mixer2d_init_ok)
qed

theorem Mixer2d_init_divisibility_witness:
  "\<not> ((4::int) dvd 28 \<and> (4::int) dvd 30) \<and>
   Mixer2d_init positive_layers (frac_prng 0) [1, 28, 30] 4 64 512 512 4 10 [] = Inl AssertionError \<and>
   prng_ok (frac_prng 0) \<and> layers_ok positive_layers \<and> (0::int) < 4 \<and> (4::int) dvd 28 \<and>
   (\<exists>m. Mixer2d_init positive_layers (frac_prng 0) [1, 28, 28] 4 64 512 512 4 10 [] = Inr m \<and>
        length (blocks m) = nat 4 \<and> norm_shape m = [64, (28 div 4) * (28 div 4)])"
proof -
  have ok: "prng_ok (frac_prng 0)" by (rule prng_ok_frac) simp_all
  have nd: "\<not> ((4::int) dvd 28 \<and> (4::int) dvd 30)" by presburger
  have dv: "(4::int) dvd 28" by presburger
  have e: "Mixer2d_init positive_layers (frac_prng 0) [1, 28, 30] 4 64 512 512 4 10 [] =
             Inl (if (4::int) = 0 then ZeroDivisionError else AssertionError)"
    by (rule Mixer2d_init_divisibility
        [where p = 4 and h = 28 and w = 30 and L = positive_layers and g = "frac_prng 0"
           and c = 1 and hs = 64 and mps = 512 and mhs = 512 and nb = 4 and ?t1.0 = 10
           and key = "[]", THEN conjunct1, THEN mp, OF nd])
  have h: "prng_ok (frac_prng 0) \<and> layers_ok positive_layers \<and> (0::int) < 4 \<and> (0::int) \<le> 4 \<and>
      (4::int) dvd 28 \<and> (4::int) dvd 28 \<and>
      (0::int) < 1 \<and> (0::int) < 28 \<and> (0::int) < 28 \<and> (0::int) < 64 \<and> (0::int) < 512 \<and> (0::int) < 512"
    using ok dv layers_ok_positive by simp
  have s: "\<exists>m. Mixer2d_init positive_layers (frac_prng 0) [1, 28, 28] 4 64 512 512 4 10 [] = Inr m \<and>
        length (blocks m) = nat 4 \<and> norm_shape m = [64, (28 div 4) * (28 div 4)]"
    by (rule Mixer2d_init_divisibility
        [where p = 4 and h = 28 and w = 28 and L = positive_layers and g = "frac_prng 0"
           and c = 1 and hs = 64 and mps = 512 and mhs = 512 and nb = 4 and ?t1.0 = 10
           and key = "[]", THEN conjunct2, THEN mp, OF h])
  from e have e': "Mixer2d_init positive_layers (frac_prng 0) [1, 28, 30] 4 64 512 512 4 10 [] = Inl AssertionError"
    by simp
  have p4: "(0::int) < 4" by simp
  from nd e' ok layers_ok_positive p4 dv s show ?thesis by (intro conjI)
qed

text \<open>Divisible sizes alone do not build a network: a hidden size of zero is rejected by
  the constructors of \<open>positive_layers\<close>.\<close>

lemma Mixer2d_init_hidden_zero:
  "Mixer2d_init positive_layers (frac_prng 0) [1, 28, 28] 4 0 512 512 4 10 [] = Inl LibraryError"
proof -
  have "split (frac_prng 0) [] (nat (2 + 4)) = [[0], [1], [2], [3], [4], [5]]"
    by (simp add: frac_prng_def path_split_def upt_rec)
  then show ?thesis
    by (simp add: Mixer2d_init_def positive_layers_def)
qed

end
